theory Spec2Isabelle
  imports Complex_Main
begin

section \<open>The SPH kernel of adaptive\_smoothing.c\<close>

text \<open>
  The C source computes with IEEE doubles. The program is embedded twice.

  The first reading, in this section and the next, is the program in exact arithmetic:
  every \<open>double\<close> is a real number and every operation the exact operation on reals;
  rounding, overflow to infinity and NaN do not occur in it. It is the program that the
  statements ``in exact arithmetic'' are about. Where the C program would leave the
  reals (a division by zero) or the C standard (a conversion to \<open>int\<close> that does not
  fit, an access outside an array), this reading returns a fault instead of a value; see
  the accumulator below. Its kernel is a plain real function, to be used with a non-zero
  \<open>h\<close> only: HOL's \<open>r / 0 = 0\<close> is not what the C division does.

  The second reading, \<open>sph_kernel_b64\<close>, \<open>rhalfs_to_pixels_b64\<close> and \<open>add_b64\<close> further
  down, is the program as it runs: every \<open>double\<close> is a binary64 value and every operation
  rounds. Statements that are not limited to exact arithmetic are settled on it.

  In both readings the literals of the source are the binary64 numbers that they denote.
  All but two are exact (\<open>0.5\<close>, \<open>1.0\<close>, \<open>2.0\<close>, \<open>4.0\<close>, \<open>6.0\<close>, \<open>7.0\<close>, \<open>10.0\<close>); the two that
  are not are \<open>pi\<close> and \<open>num_hsml\<close>, given below as fractions.
\<close>

subsection \<open>sph\_kernel\<close>

text \<open>
  \<^verbatim>\<open>static const double pi = 3.141592653589793;\<close>
  The constant of the program is the binary64 number that this literal denotes,
  \<open>884279719003555 / 2 ^ 48 = 3.141592653589793115997963...\<close>; it is not the real number
  \<open>\<pi>\<close>. Both readings of the program below use this constant, and \<open>pi\<close> in the
  statements about the program is this constant.
\<close>

definition pi_const :: real where
  "pi_const = 884279719003555 / 2 ^ 48"

text \<open>
  \<^verbatim>\<open>
  double x = r / h;
  if (x <= 0.5)  retval = 1.0 - 6.0*x*x + 6.0*x*x*x;
  else if (x <= 1) retval = 2.0 * (1.0 - x) * (1.0 - x) * (1.0 - x);
  else retval = 0.0;
  return 4.0 * 10.0 / (7.0*pi*h*h) * retval;
  \<close>
\<close>

definition sph_kernel :: "real \<Rightarrow> real \<Rightarrow> real" where
  "sph_kernel r h =
     (let x = r / h;
          retval = (if x \<le> 0.5 then 1.0 - 6.0 * x * x + 6.0 * x * x * x
                    else if x \<le> 1 then 2.0 * (1.0 - x) * (1.0 - x) * (1.0 - x)
                    else 0.0)
      in 4.0 * 10.0 / (7.0 * pi_const * h * h) * retval)"

text \<open>
  The value that the three-way branch of \<open>sph_kernel\<close> assigns to its local variable
  \<open>retval\<close>, as a function of \<open>x\<close>. It only serves to state lemmas about the branch
  without the division \<open>r / h\<close> in the way; \<open>sph_kernel_kernel_retval\<close> ties it to the
  definition above.
\<close>

definition kernel_retval :: "real \<Rightarrow> real" where
  "kernel_retval x = (if x \<le> 1 / 2 then 1 - 6 * x * x + 6 * x * x * x
                else if x \<le> 1 then 2 * (1 - x) * (1 - x) * (1 - x) else 0)"

text \<open>
  The kernel profile as the specification writes it (section 4.2), for comparison with
  the source. The specification gives no value below \<open>0\<close>; the value chosen there
  is never used.
\<close>

definition W_raw :: "real \<Rightarrow> real" where
  "W_raw x =
     (if 0 \<le> x \<and> x \<le> 1 / 2 then 1 - 6 * x\<^sup>2 + 6 * x ^ 3
      else if 1 / 2 < x \<and> x \<le> 1 then 2 * (1 - x) ^ 3
      else 0)"

section \<open>The coordinate mapper and the accumulator\<close>

subsection \<open>Faults\<close>

text \<open>
  What the C program does outside the reals or outside the C standard is a fault of the
  model:
  \<^item> \<open>Not_Finite\<close>: a division by zero, whose IEEE result is an infinity or a NaN;
  \<^item> \<open>Int_Range\<close>: an \<open>int\<close> result that does not fit in 32 bits, either the
    conversion \<^verbatim>\<open>(int) floor(...)\<close> of a value out of range or the signed overflow of
    \<^verbatim>\<open>i*ny + j\<close> and \<^verbatim>\<open>ny-1\<close> (both undefined behaviour);
  \<^item> \<open>Out_Of_Bounds\<close>: an array access outside the extent the caller supplied.
  A run of the model that returns \<open>Inr\<close> is a run of the C program in which none of
  these happens. Arguments of type \<open>int\<close> are integers; the theorems that depend on
  their being machine integers say so with \<open>int_ok\<close>.
\<close>

datatype fault = Not_Finite | Int_Range | Out_Of_Bounds

definition int_ok :: "int \<Rightarrow> bool" where
  "int_ok v \<longleftrightarrow> - (2 ^ 31) \<le> v \<and> v \<le> 2 ^ 31 - 1"

text \<open>
  An array is the list of its cells; the pointers \<open>X\<close>, \<open>Y\<close>, \<open>Z\<close> and the four
  per-source arrays are taken to be distinct objects. \<open>read xs n\<close> is the access
  \<^verbatim>\<open>xs[n]\<close>.
\<close>

definition read :: "'a list \<Rightarrow> int \<Rightarrow> fault + 'a" where
  "read xs n = (if 0 \<le> n \<and> n < int (length xs) then Inr (xs ! nat n) else Inl Out_Of_Bounds)"

text \<open>
  A counted loop whose body may fault: the body runs on each element in turn and the
  first fault ends the run.
\<close>

fun for_each :: "('a \<Rightarrow> 's \<Rightarrow> fault + 's) \<Rightarrow> 'a list \<Rightarrow> 's \<Rightarrow> fault + 's" where
  "for_each body [] s = Inr s"
| "for_each body (a # as) s =
     (case body a s of Inl e \<Rightarrow> Inl e | Inr s' \<Rightarrow> for_each body as s')"

subsection \<open>rhalfs\_to\_pixels\<close>

text \<open>
  \<^verbatim>\<open>return (int) floor(npix/2.0 + r*npix/(2.0*num_rhalfs));\<close>
  \<open>pixel_floor\<close> is the argument of the conversion, \<open>rhalfs_to_pixels\<close> the function
  with the conversion.
\<close>

definition pixel_floor :: "real \<Rightarrow> int \<Rightarrow> real \<Rightarrow> int" where
  "pixel_floor r npix num_rhalfs =
     \<lfloor>real_of_int npix / 2.0 + r * real_of_int npix / (2.0 * num_rhalfs)\<rfloor>"

definition rhalfs_to_pixels :: "real \<Rightarrow> int \<Rightarrow> real \<Rightarrow> fault + int" where
  "rhalfs_to_pixels r npix num_rhalfs =
     (if num_rhalfs = 0 then Inl Not_Finite
      else if int_ok (pixel_floor r npix num_rhalfs) then Inr (pixel_floor r npix num_rhalfs)
      else Inl Int_Range)"

subsection \<open>add\<close>

text \<open>
  The four bounds of one source, lines 34 to 37 of the source:
  \<^verbatim>\<open>
  int imin = (int) fmax(0,    rhalfs_to_pixels(y0[k]-h, ny, num_rhalfs));
  int imax = (int) fmin(ny-1, rhalfs_to_pixels(y0[k]+h, ny, num_rhalfs));
  int jmin = (int) fmax(0,    rhalfs_to_pixels(x0[k]-h, nx, num_rhalfs));
  int jmax = (int) fmin(nx-1, rhalfs_to_pixels(x0[k]+h, nx, num_rhalfs));
  \<close>
  \<open>fmax\<close> and \<open>fmin\<close> of two integers are their maximum and minimum, and the
  conversion back to \<open>int\<close> is exact. The result is \<open>(imin, imax, jmin, jmax)\<close>.
\<close>

definition bounding_box ::
  "int \<Rightarrow> int \<Rightarrow> real \<Rightarrow> real \<Rightarrow> real \<Rightarrow> real \<Rightarrow> fault + (int \<times> int \<times> int \<times> int)" where
  "bounding_box nx ny x0k y0k h num_rhalfs =
     (case rhalfs_to_pixels (y0k - h) ny num_rhalfs of Inl e \<Rightarrow> Inl e | Inr a \<Rightarrow>
      if \<not> int_ok (ny - 1) then Inl Int_Range else
      case rhalfs_to_pixels (y0k + h) ny num_rhalfs of Inl e \<Rightarrow> Inl e | Inr b \<Rightarrow>
      case rhalfs_to_pixels (x0k - h) nx num_rhalfs of Inl e \<Rightarrow> Inl e | Inr c \<Rightarrow>
      if \<not> int_ok (nx - 1) then Inl Int_Range else
      case rhalfs_to_pixels (x0k + h) nx num_rhalfs of Inl e \<Rightarrow> Inl e | Inr d \<Rightarrow>
      Inr (max 0 a, min (ny - 1) b, max 0 c, min (nx - 1) d))"

text \<open>
  The body of the innermost loop, for the cell \<open>(i, j)\<close> and a source at \<open>(x0k, y0k)\<close>
  with support radius \<open>h\<close>:
  \<^verbatim>\<open>
  int n = i*ny + j;
  double r = sqrt((X[n]-x0[k])*(X[n]-x0[k]) + (Y[n]-y0[k])*(Y[n]-y0[k]));
  Z[n] += weights[k] * sph_kernel(r, h);
  \<close>
  \<open>wk\<close> is the read of \<^verbatim>\<open>weights[k]\<close>, which the source performs here and not before the
  loops. With \<open>h = 0\<close> the kernel divides by zero and the sum stored in \<open>Z[n]\<close> is a NaN.
\<close>

definition add_cell ::
  "real list \<Rightarrow> real list \<Rightarrow> int \<Rightarrow> real \<Rightarrow> real \<Rightarrow> fault + real \<Rightarrow> real \<Rightarrow> int \<Rightarrow> int
    \<Rightarrow> real list \<Rightarrow> fault + real list" where
  "add_cell X Y ny x0k y0k wk h i j Z =
     (if \<not> int_ok (i * ny) \<or> \<not> int_ok (i * ny + j) then Inl Int_Range
      else let n = i * ny + j in
        case read X n of Inl e \<Rightarrow> Inl e | Inr Xn \<Rightarrow>
        case read Y n of Inl e \<Rightarrow> Inl e | Inr Yn \<Rightarrow>
        let r = sqrt ((Xn - x0k) * (Xn - x0k) + (Yn - y0k) * (Yn - y0k)) in
        case wk of Inl e \<Rightarrow> Inl e | Inr w \<Rightarrow>
        case read Z n of Inl e \<Rightarrow> Inl e | Inr Zn \<Rightarrow>
        if h = 0 then Inl Not_Finite
        else Inr (Z[nat n := Zn + w * sph_kernel r h]))"

text \<open>
  The body of the loop over the sources, for one source:
  \<^verbatim>\<open>
  double h = num_hsml*hsml[k];
  ... imin, imax, jmin, jmax ...
  for (i = imin; i < imax+1; i++)
      for (j = jmin; j < jmax+1; j++) ...
  \<close>
  \<open>[imin..imax]\<close> is the list of the integers from \<open>imin\<close> to \<open>imax\<close>, empty when
  \<open>imax < imin\<close>.
\<close>

text \<open>
  \<^verbatim>\<open>static const double num_hsml = 2.8;\<close>
  The binary64 number that the literal denotes, \<open>2.79999999999999982236431605997495353221893310546875\<close>.
\<close>

definition num_hsml :: real where
  "num_hsml = 3152519739159347 / 2 ^ 50"

definition add_point ::
  "real list \<Rightarrow> real list \<Rightarrow> int \<Rightarrow> int \<Rightarrow> real \<Rightarrow> real \<Rightarrow> fault + real \<Rightarrow> real \<Rightarrow> real
    \<Rightarrow> real list \<Rightarrow> fault + real list" where
  "add_point X Y nx ny x0k y0k wk hsmlk num_rhalfs Z =
     (let h = num_hsml * hsmlk in
      case bounding_box nx ny x0k y0k h num_rhalfs of Inl e \<Rightarrow> Inl e
      | Inr (imin, imax, jmin, jmax) \<Rightarrow>
          for_each (\<lambda>i. for_each (add_cell X Y ny x0k y0k wk h i) [jmin..jmax]) [imin..imax] Z)"

text \<open>
  \<^verbatim>\<open>
  void add(const double *X, const double *Y, double *Z, const int nx, const int ny,
           const double* x0, const double* y0, const double* weights, const double* hsml,
           const int npoints, const double num_rhalfs)
  for (k = 0; k < npoints; k++) ...
  \<close>
  The function returns nothing and updates \<open>Z\<close> in place; the model returns the
  updated \<open>Z\<close>. \<open>add_source\<close> is the loop body with its reads of \<open>hsml[k]\<close>, \<open>y0[k]\<close>
  and \<open>x0[k]\<close>.
\<close>

definition add_source ::
  "real list \<Rightarrow> real list \<Rightarrow> int \<Rightarrow> int \<Rightarrow> real list \<Rightarrow> real list \<Rightarrow> real list \<Rightarrow> real list
    \<Rightarrow> real \<Rightarrow> int \<Rightarrow> real list \<Rightarrow> fault + real list" where
  "add_source X Y nx ny x0 y0 weights hsml num_rhalfs k Z =
     (case read hsml k of Inl e \<Rightarrow> Inl e | Inr hsmlk \<Rightarrow>
      case read y0 k of Inl e \<Rightarrow> Inl e | Inr y0k \<Rightarrow>
      case read x0 k of Inl e \<Rightarrow> Inl e | Inr x0k \<Rightarrow>
      add_point X Y nx ny x0k y0k (read weights k) hsmlk num_rhalfs Z)"

definition add ::
  "real list \<Rightarrow> real list \<Rightarrow> real list \<Rightarrow> int \<Rightarrow> int \<Rightarrow> real list \<Rightarrow> real list \<Rightarrow> real list
    \<Rightarrow> real list \<Rightarrow> int \<Rightarrow> real \<Rightarrow> fault + real list" where
  "add X Y Z nx ny x0 y0 weights hsml npoints num_rhalfs =
     for_each (add_source X Y nx ny x0 y0 weights hsml num_rhalfs) [0..npoints - 1] Z"

subsection \<open>The axis convention as the specification words it\<close>

text \<open>
  Section 6 of the specification: ``x0 and imin/imax-style bounds for the y-direction are
  resolved against ny; y0 and jmin/jmax for the x-direction are resolved against nx''.
  This is that sentence, for comparison with \<open>bounding_box\<close>; it is not taken from the
  source.
\<close>

definition axis_convention_box ::
  "int \<Rightarrow> int \<Rightarrow> real \<Rightarrow> real \<Rightarrow> real \<Rightarrow> real \<Rightarrow> int \<times> int \<times> int \<times> int" where
  "axis_convention_box nx ny x0k y0k h num_rhalfs =
     (max 0 (pixel_floor (x0k - h) ny num_rhalfs), min (ny - 1) (pixel_floor (x0k + h) ny num_rhalfs),
      max 0 (pixel_floor (y0k - h) nx num_rhalfs), min (nx - 1) (pixel_floor (y0k + h) nx num_rhalfs))"

subsection \<open>What one source adds to one cell\<close>

text \<open>
  The four bounds as integers, for the runs in which \<open>bounding_box\<close> is defined, and
  the sum of what the two inner loops add to the cell of index \<open>n\<close> for a source at
  \<open>(x0k, y0k)\<close> with weight \<open>w\<close> and smoothing length \<open>hsmlk\<close>. Both follow the loops of the
  source; they are the right-hand side against which \<open>add\<close> is compared.
\<close>

definition clipped_box :: "int \<Rightarrow> int \<Rightarrow> real \<Rightarrow> real \<Rightarrow> real \<Rightarrow> real \<Rightarrow> int \<times> int \<times> int \<times> int" where
  "clipped_box nx ny x0k y0k h num_rhalfs =
     (max 0 (pixel_floor (y0k - h) ny num_rhalfs), min (ny - 1) (pixel_floor (y0k + h) ny num_rhalfs),
      max 0 (pixel_floor (x0k - h) nx num_rhalfs), min (nx - 1) (pixel_floor (x0k + h) nx num_rhalfs))"

definition cell_term ::
  "real list \<Rightarrow> real list \<Rightarrow> int \<Rightarrow> real \<Rightarrow> real \<Rightarrow> real \<Rightarrow> real \<Rightarrow> int \<Rightarrow> int \<Rightarrow> nat \<Rightarrow> real" where
  "cell_term X Y ny x0k y0k w h i j n =
     (if i * ny + j = int n
      then w * sph_kernel (sqrt ((X ! n - x0k) * (X ! n - x0k) + (Y ! n - y0k) * (Y ! n - y0k))) h
      else 0)"

definition contribution ::
  "real list \<Rightarrow> real list \<Rightarrow> int \<Rightarrow> int \<Rightarrow> real \<Rightarrow> real \<Rightarrow> real \<Rightarrow> real \<Rightarrow> real \<Rightarrow> nat \<Rightarrow> real" where
  "contribution X Y nx ny num_rhalfs x0k y0k w hsmlk n =
     (let h = num_hsml * hsmlk in
      case clipped_box nx ny x0k y0k h num_rhalfs of (imin, imax, jmin, jmax) \<Rightarrow>
        (\<Sum>i\<leftarrow>[imin..imax]. \<Sum>j\<leftarrow>[jmin..jmax]. cell_term X Y ny x0k y0k w h i j n))"

subsection \<open>Auxiliary notions\<close>

text \<open>
  A step on \<open>Z\<close> is shift invariant when adding a field \<open>D\<close> of the same length to its
  input adds \<open>D\<close> to its output, faults included, and when it keeps the length of \<open>Z\<close>.
  Every loop of \<open>add\<close> is such a step, since it only ever adds to cells of \<open>Z\<close>.
\<close>

definition shift_invariant :: "(real list \<Rightarrow> fault + real list) \<Rightarrow> bool" where
  "shift_invariant f \<longleftrightarrow>
     (\<forall>Z D. length D = length Z \<longrightarrow>
        f (map2 (+) Z D) = (case f Z of Inl e \<Rightarrow> Inl e | Inr Z' \<Rightarrow> Inr (map2 (+) Z' D)))
     \<and> (\<forall>Z Z'. f Z = Inr Z' \<longrightarrow> length Z' = length Z)"

text \<open>
  The four conversions to \<open>int\<close> in the bounds of a source are defined.
\<close>

definition casts_defined :: "int \<Rightarrow> int \<Rightarrow> real \<Rightarrow> real \<Rightarrow> real \<Rightarrow> real \<Rightarrow> bool" where
  "casts_defined nx ny x0k y0k h num_rhalfs \<longleftrightarrow>
     int_ok (pixel_floor (y0k - h) ny num_rhalfs) \<and> int_ok (pixel_floor (y0k + h) ny num_rhalfs)
     \<and> int_ok (pixel_floor (x0k - h) nx num_rhalfs) \<and> int_ok (pixel_floor (x0k + h) nx num_rhalfs)"

section \<open>Binary64 arithmetic\<close>

text \<open>
  The second reading of the program computes as the machine does. A \<open>double\<close> is an IEEE 754
  binary64 value: a finite number \<open>m * 2 ^ e\<close> with \<open>\<bar>m\<bar> < 2 ^ 53\<close> and
  \<open>- 1074 \<le> e \<le> 971\<close> (subnormal numbers included), a zero of either sign, an infinity of
  either sign, or a NaN. Every operation returns the exact result rounded to the nearest
  such number, ties to the even significand (the default rounding mode), an infinity when
  the rounded result reaches \<open>2 ^ 1024\<close>. Each C operation is one rounding: no fused
  multiply-add and no extended precision, as for SSE2 code on x86-64. One NaN stands for all.
\<close>

subsection \<open>Rounding\<close>

text \<open>
  \<open>rhe\<close> rounds a real to the nearest integer, halves to the even one. \<open>ulp_exp x\<close> is the
  exponent of the unit in the last place at \<open>x\<close>: \<open>floor (log2 \<bar>x\<bar>) - 52\<close> for a normal
  number, \<open>- 1074\<close> in the subnormal range. \<open>rnd x\<close> is the multiple of
  \<open>2 ^ ulp_exp x\<close> nearest to \<open>x\<close>, before the overflow check.
\<close>

definition rhe :: "real \<Rightarrow> int" where
  "rhe y = (let f = \<lfloor>y\<rfloor> in
     if y - of_int f < 1 / 2 then f
     else if 1 / 2 < y - of_int f then f + 1
     else if even f then f else f + 1)"

definition ulp_exp :: "real \<Rightarrow> int" where
  "ulp_exp x = max (\<lfloor>log 2 \<bar>x\<bar>\<rfloor> - 52) (- 1074)"

definition rnd :: "real \<Rightarrow> real" where
  "rnd x = (if x = 0 then 0 else of_int (rhe (x / 2 powi ulp_exp x)) * 2 powi ulp_exp x)"

text \<open>
  The finite numbers of the format. The type \<open>b64\<close> below carries any real in \<open>Fin\<close>;
  statements about all doubles assume \<open>is_b64\<close> of the inputs, and every operation
  returns a number of the format (\<open>rnd\<close> of anything is one).
\<close>

definition is_b64 :: "real \<Rightarrow> bool" where
  "is_b64 x \<longleftrightarrow> (\<exists>m e. x = of_int m * 2 powi e \<and> \<bar>m\<bar> < 2 ^ 53 \<and> - 1074 \<le> e \<and> e \<le> 971)"

subsection \<open>Values and operations\<close>

text \<open>
  \<open>Fin 0\<close> is the positive zero, \<open>NegZero\<close> the negative one. \<open>sign_neg\<close> is the sign bit
  and \<open>val\<close> the real value of a finite number.
\<close>

datatype b64 = Fin real | NegZero | PInf | NInf | NaN

fun sign_neg :: "b64 \<Rightarrow> bool" where
  "sign_neg (Fin x) = (x < 0)"
| "sign_neg NegZero = True"
| "sign_neg PInf = False"
| "sign_neg NInf = True"
| "sign_neg NaN = False"

fun val :: "b64 \<Rightarrow> real" where
  "val (Fin x) = x"
| "val NegZero = 0"
| "val PInf = 0"
| "val NInf = 0"
| "val NaN = 0"

definition is_inf :: "b64 \<Rightarrow> bool" where
  "is_inf a \<longleftrightarrow> a = PInf \<or> a = NInf"

definition is_zero :: "b64 \<Rightarrow> bool" where
  "is_zero a \<longleftrightarrow> a = Fin 0 \<or> a = NegZero"


definition zero_of :: "bool \<Rightarrow> b64" where
  "zero_of neg = (if neg then NegZero else Fin 0)"

definition inf_of :: "bool \<Rightarrow> b64" where
  "inf_of neg = (if neg then NInf else PInf)"

text \<open>
  The result of an operation whose exact value is \<open>x\<close>; \<open>neg\<close> is the sign of the exact
  result, which a zero or an infinity keeps.
\<close>

definition round_b64 :: "bool \<Rightarrow> real \<Rightarrow> b64" where
  "round_b64 neg x =
     (let y = rnd x in
      if 2 ^ 1024 \<le> \<bar>y\<bar> then inf_of neg else if y = 0 then zero_of neg else Fin y)"

text \<open>
  Multiplication, division, addition, subtraction, square root, \<open>floor\<close> and \<open>\<le>\<close> with
  their IEEE 754 special cases: \<open>0 * inf\<close>, \<open>0 / 0\<close>, \<open>inf / inf\<close> and \<open>inf - inf\<close> are NaN,
  a non-zero number divided by a zero is an infinity, an exact sum zero is \<open>+0\<close> unless both
  terms are negative, and a comparison with a NaN is false.
\<close>

definition fmul :: "b64 \<Rightarrow> b64 \<Rightarrow> b64" where
  "fmul a b =
     (if a = NaN \<or> b = NaN then NaN
      else if (is_inf a \<and> is_zero b) \<or> (is_zero a \<and> is_inf b) then NaN
      else if is_inf a \<or> is_inf b then inf_of (sign_neg a \<noteq> sign_neg b)
      else round_b64 (sign_neg a \<noteq> sign_neg b) (val a * val b))"

definition fdiv :: "b64 \<Rightarrow> b64 \<Rightarrow> b64" where
  "fdiv a b =
     (if a = NaN \<or> b = NaN then NaN
      else if (is_inf a \<and> is_inf b) \<or> (is_zero a \<and> is_zero b) then NaN
      else if is_inf a \<or> is_zero b then inf_of (sign_neg a \<noteq> sign_neg b)
      else if is_inf b then zero_of (sign_neg a \<noteq> sign_neg b)
      else round_b64 (sign_neg a \<noteq> sign_neg b) (val a / val b))"

definition fadd :: "b64 \<Rightarrow> b64 \<Rightarrow> b64" where
  "fadd a b =
     (if a = NaN \<or> b = NaN then NaN
      else if is_inf a \<and> is_inf b then (if a = b then a else NaN)
      else if is_inf a then a
      else if is_inf b then b
      else if val a + val b = 0 then zero_of (sign_neg a \<and> sign_neg b)
      else round_b64 (val a + val b < 0) (val a + val b))"

fun fneg :: "b64 \<Rightarrow> b64" where
  "fneg (Fin x) = (if x = 0 then NegZero else Fin (- x))"
| "fneg NegZero = Fin 0"
| "fneg PInf = NInf"
| "fneg NInf = PInf"
| "fneg NaN = NaN"

definition fsub :: "b64 \<Rightarrow> b64 \<Rightarrow> b64" where
  "fsub a b = fadd a (fneg b)"



fun fle :: "b64 \<Rightarrow> b64 \<Rightarrow> bool" where
  "fle NaN b = False"
| "fle a NaN = False"
| "fle NInf b = True"
| "fle a PInf = True"
| "fle PInf b = False"
| "fle a NInf = False"
| "fle a b = (val a \<le> val b)"



section \<open>The program in binary64\<close>

text \<open>
  The same three functions, operation by operation in the order in which C evaluates
  them, over \<open>b64\<close>. Infinities and NaNs are values here, so the only faults left are
  \<open>Int_Range\<close> and \<open>Out_Of_Bounds\<close>.
\<close>

subsection \<open>sph\_kernel\<close>

definition sph_kernel_b64 :: "b64 \<Rightarrow> b64 \<Rightarrow> b64" where
  "sph_kernel_b64 r h =
     (let x = fdiv r h;
          retval =
            (if fle x (Fin (1 / 2))
             then fadd (fsub (Fin 1) (fmul (fmul (Fin 6) x) x)) (fmul (fmul (fmul (Fin 6) x) x) x)
             else if fle x (Fin 1)
             then fmul (fmul (fmul (Fin 2) (fsub (Fin 1) x)) (fsub (Fin 1) x)) (fsub (Fin 1) x)
             else Fin 0)
      in fmul (fdiv (fmul (Fin 4) (Fin 10)) (fmul (fmul (fmul (Fin 7) (Fin pi_const)) h) h)) retval)"

text \<open>
  The two parts of \<open>sph_kernel_b64\<close>, named to state lemmas about them: the value of
  \<open>retval\<close> and the factor \<^verbatim>\<open>4.0 * 10.0 / (7.0*pi*h*h)\<close>; \<open>sph_kernel_b64_split\<close> ties
  them to the definition above.
\<close>

definition retval_b64 :: "b64 \<Rightarrow> b64" where
  "retval_b64 x =
     (if fle x (Fin (1 / 2))
      then fadd (fsub (Fin 1) (fmul (fmul (Fin 6) x) x)) (fmul (fmul (fmul (Fin 6) x) x) x)
      else if fle x (Fin 1)
      then fmul (fmul (fmul (Fin 2) (fsub (Fin 1) x)) (fsub (Fin 1) x)) (fsub (Fin 1) x)
      else Fin 0)"

definition scale_b64 :: "b64 \<Rightarrow> b64" where
  "scale_b64 h = fdiv (fmul (Fin 4) (Fin 10)) (fmul (fmul (fmul (Fin 7) (Fin pi_const)) h) h)"

subsection \<open>rhalfs\_to\_pixels\<close>


subsection \<open>add\<close>







subsection \<open>What one source adds to one cell, in binary64\<close>




section \<open>Properties of the kernel\<close>

lemma sph_kernel_kernel_retval: "sph_kernel r h = 40 / (7 * pi_const * h * h) * kernel_retval (r / h)"
  unfolding sph_kernel_def kernel_retval_def Let_def by simp

lemma kernel_retval_W_raw: "0 \<le> x \<Longrightarrow> kernel_retval x = W_raw x"
  unfolding kernel_retval_def W_raw_def by (simp add: power2_eq_square power3_eq_cube)

lemma kernel_retval_outside: "1 < x \<Longrightarrow> kernel_retval x = 0"
  unfolding kernel_retval_def by simp

lemma kernel_retval_half: "kernel_retval (1 / 2) = 1 / 4"
  unfolding kernel_retval_def by simp

lemma kernel_retval_one: "kernel_retval 1 = 0"
  unfolding kernel_retval_def by simp

lemma kernel_retval_zero: "kernel_retval 0 = 1"
  unfolding kernel_retval_def by simp

lemma inner_antimono:
  fixes a b :: real
  assumes "0 \<le> a" "a \<le> b" "b \<le> 1 / 2"
  shows "1 - 6 * b * b + 6 * b * b * b \<le> 1 - 6 * a * a + 6 * a * a * a"
proof -
  have "a * a \<le> a * (1 / 2)"
    by (rule mult_left_mono) (use assms in linarith)+
  moreover have "a * b \<le> a * (1 / 2)"
    by (rule mult_left_mono) (use assms in linarith)+
  moreover have "b * b \<le> b * (1 / 2)"
    by (rule mult_left_mono) (use assms in linarith)+
  ultimately have "a * a + a * b + b * b \<le> a + b"
    using assms by linarith
  then have "0 \<le> 6 * (b - a) * ((a + b) - (a * a + a * b + b * b))"
    using assms by (intro mult_nonneg_nonneg) auto
  also have "\<dots> = (1 - 6 * a * a + 6 * a * a * a) - (1 - 6 * b * b + 6 * b * b * b)"
    by (simp add: algebra_simps)
  finally show ?thesis by simp
qed

lemma outer_antimono:
  fixes a b :: real
  assumes "a \<le> b" "b \<le> 1"
  shows "2 * (1 - b) * (1 - b) * (1 - b) \<le> 2 * (1 - a) * (1 - a) * (1 - a)"
proof -
  have "0 \<le> 1 - b" "1 - b \<le> 1 - a"
    using assms by auto
  then have "(1 - b) * (1 - b) * (1 - b) \<le> (1 - a) * (1 - a) * (1 - a)"
    by (intro mult_mono mult_nonneg_nonneg) auto
  then have "2 * ((1 - b) * (1 - b) * (1 - b)) \<le> 2 * ((1 - a) * (1 - a) * (1 - a))"
    by (rule mult_left_mono) simp
  then show ?thesis by (simp only: mult.assoc)
qed

lemma outer_nonneg:
  fixes b :: real
  assumes "b \<le> 1"
  shows "0 \<le> 2 * (1 - b) * (1 - b) * (1 - b)"
  using assms by (intro mult_nonneg_nonneg) auto

lemma kernel_retval_antimono:
  assumes "0 \<le> a" "a \<le> b"
  shows "kernel_retval b \<le> kernel_retval a"
proof -
  consider "b \<le> 1 / 2" | "a \<le> 1 / 2" "1 / 2 < b" "b \<le> 1" | "1 / 2 < a" "b \<le> 1"
    | "1 < b" "a \<le> 1 / 2" | "1 < b" "1 / 2 < a" "a \<le> 1" | "1 < a"
    using assms by linarith
  then show ?thesis
  proof cases
    case 1
    then show ?thesis
      using inner_antimono [of a b] assms unfolding kernel_retval_def by simp
  next
    case 2
    have "kernel_retval b \<le> 2 * (1 - 1 / 2) * (1 - 1 / 2) * (1 - 1 / 2)"
      using outer_antimono [of "1 / 2" b] 2 unfolding kernel_retval_def by simp
    also have "\<dots> = 1 - 6 * (1 / 2) * (1 / 2) + 6 * (1 / 2) * (1 / 2) * (1 / 2 :: real)"
      by simp
    also have "\<dots> \<le> kernel_retval a"
      using inner_antimono [of a "1 / 2"] assms 2 unfolding kernel_retval_def by simp
    finally show ?thesis .
  next
    case 3
    then show ?thesis
      using outer_antimono [of a b] assms unfolding kernel_retval_def by simp
  next
    case 4
    have "0 \<le> 1 - 6 * (1 / 2) * (1 / 2) + 6 * (1 / 2) * (1 / 2) * (1 / 2 :: real)"
      by simp
    also have "\<dots> \<le> kernel_retval a"
      using inner_antimono [of a "1 / 2"] assms 4 unfolding kernel_retval_def by simp
    finally show ?thesis
      using 4 by (simp add: kernel_retval_outside)
  next
    case 5
    then show ?thesis
      using outer_nonneg [of a] unfolding kernel_retval_def by simp
  next
    case 6
    then show ?thesis
      using assms by (simp add: kernel_retval_outside)
  qed
qed

lemma kernel_retval_nonneg:
  assumes "0 \<le> x"
  shows "0 \<le> kernel_retval x"
proof -
  have "kernel_retval (x + 2) \<le> kernel_retval x"
    using assms by (intro kernel_retval_antimono) auto
  moreover have "kernel_retval (x + 2) = 0"
    using assms by (intro kernel_retval_outside) auto
  ultimately show ?thesis by simp
qed

lemma norm_nonneg: "0 \<le> 40 / (7 * pi_const * h * h)"
proof -
  have "0 \<le> 7 * pi_const"
    by (simp add: pi_const_def)
  moreover have "0 \<le> h * h"
    by simp
  ultimately have "0 \<le> 7 * pi_const * (h * h)"
    by (rule mult_nonneg_nonneg)
  then show ?thesis by (simp only: mult.assoc zero_le_divide_iff) simp
qed

lemma kernel_retval_continuous: "isCont kernel_retval x"
proof -
  let ?g = "\<lambda>x::real. 2 * (1 - x) * (1 - x) * (1 - x)"
  let ?f = "\<lambda>x::real. 1 - 6 * x * x + 6 * x * x * x"
  let ?tail = "\<lambda>x::real. if x \<le> 1 then ?g x else 0"
  have "continuous_on ({..1} \<union> {1..}) ?tail"
  proof (rule continuous_on_If)
    show "closed {..1::real}" and "closed {1::real..}"
      by (rule closed_atMost, rule closed_atLeast)
    show "continuous_on {..1} ?g"
      by (intro continuous_intros)
    show "continuous_on {1..} (\<lambda>x::real. 0::real)"
      by (rule continuous_on_const)
    show "?g x = 0" if "x \<in> {..1}" "\<not> x \<le> 1" for x
      using that by simp
    show "?g x = 0" if "x \<in> {1..}" "x \<le> 1" for x
    proof -
      have "x = 1" using that by simp
      then show ?thesis by simp
    qed
  qed
  moreover have "{..1} \<union> {1..} = (UNIV :: real set)"
    by auto
  ultimately have tail: "continuous_on UNIV ?tail"
    by (simp only:)
  have "continuous_on ({..1 / 2} \<union> {1 / 2..}) (\<lambda>x. if x \<le> 1 / 2 then ?f x else ?tail x)"
  proof (rule continuous_on_If)
    show "closed {..1 / 2::real}" and "closed {1 / 2::real..}"
      by (rule closed_atMost, rule closed_atLeast)
    show "continuous_on {..1 / 2} ?f"
      by (intro continuous_intros)
    show "continuous_on {1 / 2..} ?tail"
      using tail by (rule continuous_on_subset) simp
    show "?f x = ?tail x" if "x \<in> {..1 / 2}" "\<not> x \<le> 1 / 2" for x
      using that by simp
    show "?f x = ?tail x" if "x \<in> {1 / 2..}" "x \<le> 1 / 2" for x
    proof -
      have x: "x = 1 / 2" using that by simp
      show ?thesis unfolding x by simp
    qed
  qed
  moreover have "{..1 / 2} \<union> {1 / 2..} = (UNIV :: real set)"
    by auto
  ultimately have "continuous_on UNIV (\<lambda>x. if x \<le> 1 / 2 then ?f x else ?tail x)"
    by (simp only:)
  moreover have "kernel_retval = (\<lambda>x. if x \<le> 1 / 2 then ?f x else ?tail x)"
    unfolding kernel_retval_def by (rule refl)
  ultimately have "continuous_on UNIV kernel_retval"
    by (simp only:)
  then show ?thesis
    by (simp add: continuous_on_eq_continuous_at)
qed

lemma sph_kernel_continuous:
  assumes "h \<noteq> 0"
  shows "isCont (\<lambda>r. sph_kernel r h) r"
proof -
  have "isCont (\<lambda>r. r / h) r"
    using assms by (intro continuous_intros)
  then have "isCont (\<lambda>r. kernel_retval (r / h)) r"
    by (rule isCont_o2) (rule kernel_retval_continuous)
  then show ?thesis
    unfolding sph_kernel_kernel_retval by (rule continuous_mult [OF continuous_const])
qed


text \<open>
  C3, as amended. In exact real arithmetic, for every \<open>r \<ge> 0\<close> and \<open>h > 0\<close>,
  \<open>sph_kernel r h\<close> is the specification's profile \<open>W_raw (r / h)\<close> scaled by
  \<open>40 / (7 * pi * h\<^sup>2)\<close>, where \<open>pi\<close> is the constant of the source (the double
  \<open>3.141592653589793\<close>, not the real number \<open>\<pi>\<close>); the result is non-negative; and the
  scale factor is the two-dimensional one: at \<open>r = 0\<close>, \<open>h = 1\<close> the kernel is
  \<open>40 / (7 * pi)\<close>, which differs from the three-dimensional normalisation \<open>8 / pi\<close>.
\<close>

theorem sph_kernel_refines_W_raw:
  assumes "0 \<le> r" and "0 < h"
  shows "sph_kernel r h = 40 / (7 * pi_const * h\<^sup>2) * W_raw (r / h)
    \<and> 0 \<le> sph_kernel r h
    \<and> sph_kernel 0 1 = 40 / (7 * pi_const)
    \<and> sph_kernel 0 1 \<noteq> 8 / pi_const"
proof -
  have x: "0 \<le> r / h"
    using assms by simp
  have "sph_kernel r h = 40 / (7 * pi_const * h\<^sup>2) * W_raw (r / h)"
    unfolding sph_kernel_kernel_retval kernel_retval_W_raw [OF x]
    by (simp add: power2_eq_square mult.assoc)
  moreover have "0 \<le> sph_kernel r h"
    unfolding sph_kernel_kernel_retval
    by (intro mult_nonneg_nonneg norm_nonneg kernel_retval_nonneg x)
  moreover have at0: "sph_kernel 0 1 = 40 / (7 * pi_const)"
    unfolding sph_kernel_kernel_retval by (simp add: kernel_retval_zero)
  moreover have "sph_kernel 0 1 \<noteq> 8 / pi_const"
    unfolding at0 by (simp add: pi_const_def)
  ultimately show ?thesis
    by (intro conjI)
qed

theorem sph_kernel_refines_W_raw_witness:
  "(0::real) \<le> 1 \<and> (0::real) < 2
    \<and> sph_kernel 1 2 = 40 / (7 * pi_const * 2\<^sup>2) * W_raw (1 / 2)
    \<and> 0 \<le> sph_kernel 1 2"
  using sph_kernel_refines_W_raw [of 1 2] by simp


text \<open>
  C9. In exact arithmetic the kernel evaluator is continuous at both breakpoints. For
  every \<open>h > 0\<close>, \<open>r \<mapsto> sph_kernel r h\<close> is continuous at \<open>r = h / 2\<close> and at
  \<open>r = h\<close>; at \<open>x = 1 / 2\<close> the first-branch polynomial and the second-branch
  polynomial both take the value \<open>1 / 4\<close>, which is the value of the branch there; at
  \<open>x = 1\<close> the second-branch polynomial and the branch take the value \<open>0\<close> of the zero
  branch.
\<close>

theorem sph_kernel_continuous_at_breakpoints:
  assumes "0 < h"
  shows "isCont (\<lambda>r. sph_kernel r h) (h / 2)
    \<and> isCont (\<lambda>r. sph_kernel r h) h
    \<and> sph_kernel (h / 2) h = 40 / (7 * pi_const * h * h) * (1 / 4)
    \<and> sph_kernel h h = 0
    \<and> kernel_retval (1 / 2) = 1 - 6 * (1 / 2) * (1 / 2) + 6 * (1 / 2) * (1 / 2) * (1 / 2)
    \<and> kernel_retval (1 / 2) = 2 * (1 - 1 / 2) * (1 - 1 / 2) * (1 - 1 / 2)
    \<and> kernel_retval (1 / 2) = 1 / 4
    \<and> kernel_retval 1 = 2 * (1 - 1) * (1 - 1) * (1 - 1)
    \<and> kernel_retval 1 = 0"
proof -
  have h: "h \<noteq> 0"
    using assms by simp
  have "h / 2 / h = 1 / 2" and "h / h = 1"
    using h by simp_all
  then have "sph_kernel (h / 2) h = 40 / (7 * pi_const * h * h) * (1 / 4)"
    and "sph_kernel h h = 0"
    unfolding sph_kernel_kernel_retval by (simp_all only: kernel_retval_half kernel_retval_one mult_zero_right)
  moreover have "kernel_retval (1 / 2) = 1 - 6 * (1 / 2) * (1 / 2) + 6 * (1 / 2) * (1 / 2) * (1 / 2)"
    and "kernel_retval (1 / 2) = 2 * (1 - 1 / 2) * (1 - 1 / 2) * (1 - 1 / 2)"
    and "kernel_retval 1 = 2 * (1 - 1) * (1 - 1) * (1 - 1)"
    unfolding kernel_retval_half kernel_retval_one by simp_all
  ultimately show ?thesis
    using sph_kernel_continuous [OF h] kernel_retval_half kernel_retval_one
    by (intro conjI)
qed

theorem sph_kernel_continuous_at_breakpoints_witness:
  "(0::real) < 1
    \<and> isCont (\<lambda>r. sph_kernel r 1) (1 / 2)
    \<and> isCont (\<lambda>r. sph_kernel r 1) 1
    \<and> sph_kernel (1 / 2) 1 = 40 / (7 * pi_const) * (1 / 4)
    \<and> sph_kernel 1 1 = 0"
  using sph_kernel_continuous_at_breakpoints [of 1] by simp

text \<open>
  C10, as amended. In exact real arithmetic, for every fixed \<open>h > 0\<close> the kernel is
  monotone non-increasing in \<open>r\<close> on \<open>[0, \<infinity>)\<close>: \<open>0 \<le> r1 \<le> r2\<close> gives
  \<open>sph_kernel r2 h \<le> sph_kernel r1 h\<close>; in particular its maximum is attained at
  \<open>r = 0\<close>.
\<close>

theorem sph_kernel_antimono:
  assumes "0 < h" and "0 \<le> r1" and "r1 \<le> r2"
  shows "sph_kernel r2 h \<le> sph_kernel r1 h \<and> sph_kernel r2 h \<le> sph_kernel 0 h"
proof -
  have "0 \<le> r1 / h" and "r1 / h \<le> r2 / h" and "0 \<le> r2 / h"
    using assms by (auto simp: divide_right_mono)
  then have "kernel_retval (r2 / h) \<le> kernel_retval (r1 / h)"
    and "kernel_retval (r2 / h) \<le> kernel_retval (0 / h)"
    by (auto intro: kernel_retval_antimono)
  then show ?thesis
    unfolding sph_kernel_kernel_retval by (intro conjI mult_left_mono norm_nonneg)
qed

theorem sph_kernel_antimono_witness:
  "(0::real) < 1 \<and> (0::real) \<le> 1 / 4 \<and> (1 / 4 :: real) \<le> 3 / 4
    \<and> sph_kernel (3 / 4) 1 \<le> sph_kernel (1 / 4) 1
    \<and> sph_kernel (3 / 4) 1 \<le> sph_kernel 0 1"
  using sph_kernel_antimono [of 1 "1 / 4" "3 / 4"] by simp

section \<open>Properties of the coordinate mapper\<close>

lemma pixel_floor_origin: "pixel_floor 0 npix R = \<lfloor>real_of_int npix / 2\<rfloor>"
  by (simp add: pixel_floor_def)

lemma pixel_floor_right: "R \<noteq> 0 \<Longrightarrow> pixel_floor R npix R = npix"
  by (simp add: pixel_floor_def)

lemma pixel_floor_left: "R \<noteq> 0 \<Longrightarrow> pixel_floor (- R) npix R = 0"
  by (simp add: pixel_floor_def)

lemma half_floor: "\<lfloor>real_of_int npix / 2\<rfloor> = npix div 2"
  using floor_divide_of_int_eq [of npix 2, where ?'a = real] by simp

lemma int_ok_half: "1 \<le> npix \<Longrightarrow> int_ok npix \<Longrightarrow> int_ok (npix div 2)"
  unfolding int_ok_def by linarith

text \<open>
  C6. In exact arithmetic, for every integer \<open>npix \<ge> 1\<close> and every \<open>R > 0\<close>, the value
  \<open>floor (npix / 2 + r * npix / (2 * R))\<close> of the coordinate mapper is \<open>floor (npix / 2)\<close>
  at \<open>r = 0\<close>, \<open>npix\<close> (one past the last cell) at \<open>r = R\<close>, and \<open>0\<close> at \<open>r = - R\<close>;
  and when \<open>npix\<close> is an \<open>int\<close> of the program, the three conversions are defined and
  \<open>rhalfs_to_pixels\<close> returns these values.
\<close>

theorem rhalfs_to_pixels_anchors:
  assumes "1 \<le> npix" and "0 < R"
  shows "pixel_floor 0 npix R = \<lfloor>real_of_int npix / 2\<rfloor>
    \<and> pixel_floor R npix R = npix
    \<and> pixel_floor (- R) npix R = 0
    \<and> (int_ok npix \<longrightarrow>
        rhalfs_to_pixels 0 npix R = Inr \<lfloor>real_of_int npix / 2\<rfloor>
        \<and> rhalfs_to_pixels R npix R = Inr npix
        \<and> rhalfs_to_pixels (- R) npix R = Inr 0)"
proof -
  have R: "R \<noteq> 0"
    using assms by simp
  have mapper: "rhalfs_to_pixels 0 npix R = Inr \<lfloor>real_of_int npix / 2\<rfloor>
      \<and> rhalfs_to_pixels R npix R = Inr npix
      \<and> rhalfs_to_pixels (- R) npix R = Inr 0" if ok: "int_ok npix"
  proof -
    have "int_ok \<lfloor>real_of_int npix / 2\<rfloor>"
      unfolding half_floor using assms(1) ok by (rule int_ok_half)
    then have "rhalfs_to_pixels 0 npix R = Inr \<lfloor>real_of_int npix / 2\<rfloor>"
      unfolding rhalfs_to_pixels_def pixel_floor_origin using R by simp
    moreover have "rhalfs_to_pixels R npix R = Inr npix"
      unfolding rhalfs_to_pixels_def pixel_floor_right [OF R] using R ok by simp
    moreover have "int_ok 0"
      by (simp add: int_ok_def)
    then have "rhalfs_to_pixels (- R) npix R = Inr 0"
      unfolding rhalfs_to_pixels_def pixel_floor_left [OF R] using R by simp
    ultimately show ?thesis
      by (intro conjI)
  qed
  show ?thesis
    using pixel_floor_origin [of npix R] pixel_floor_right [OF R, of npix]
      pixel_floor_left [OF R, of npix] mapper
    by blast
qed

theorem rhalfs_to_pixels_anchors_witness:
  "(1::int) \<le> 5 \<and> (0::real) < 2 \<and> int_ok 5
    \<and> pixel_floor 0 5 2 = 2 \<and> pixel_floor 2 5 2 = 5 \<and> pixel_floor (- 2) 5 2 = 0
    \<and> rhalfs_to_pixels 0 5 2 = Inr 2
    \<and> rhalfs_to_pixels 2 5 2 = Inr 5
    \<and> rhalfs_to_pixels (- 2) 5 2 = Inr 0"
  using rhalfs_to_pixels_anchors [of 5 2] by (simp add: int_ok_def)

section \<open>The bounding box of a source\<close>

lemma rhalfs_to_pixels_Inr:
  "rhalfs_to_pixels r npix R = Inr v \<Longrightarrow> v = pixel_floor r npix R \<and> int_ok v \<and> R \<noteq> 0"
  by (auto simp: rhalfs_to_pixels_def split: if_splits)

lemma bounding_box_Inr:
  assumes "bounding_box nx ny x0k y0k h R = Inr (imin, imax, jmin, jmax)"
  shows "imin = max 0 (pixel_floor (y0k - h) ny R)"
    and "imax = min (ny - 1) (pixel_floor (y0k + h) ny R)"
    and "jmin = max 0 (pixel_floor (x0k - h) nx R)"
    and "jmax = min (nx - 1) (pixel_floor (x0k + h) nx R)"
    and "R \<noteq> 0"
  using assms unfolding bounding_box_def
  by (auto split: sum.splits if_splits dest!: rhalfs_to_pixels_Inr)

lemma box_example: "bounding_box 4 4 (- 1) (1 / 2) (28 / 100) 1 = Inr (2, 3, 0, 0)"
  by (simp add: bounding_box_def rhalfs_to_pixels_def pixel_floor_def int_ok_def)

text \<open>
  C4, as the source has it. For every source the row bounds \<open>imin\<close>, \<open>imax\<close> come from
  \<open>y0[k] - h\<close> and \<open>y0[k] + h\<close> mapped against \<open>ny\<close>, and the column bounds \<open>jmin\<close>,
  \<open>jmax\<close> from \<open>x0[k] - h\<close> and \<open>x0[k] + h\<close> mapped against \<open>nx\<close>; the lower bounds are
  clipped at \<open>0\<close> and the upper bounds at \<open>ny - 1\<close> and \<open>nx - 1\<close>.
\<close>

theorem bounding_box_axes:
  assumes "bounding_box nx ny x0k y0k h R = Inr (imin, imax, jmin, jmax)"
  shows "imin = max 0 (pixel_floor (y0k - h) ny R)
    \<and> imax = min (ny - 1) (pixel_floor (y0k + h) ny R)
    \<and> jmin = max 0 (pixel_floor (x0k - h) nx R)
    \<and> jmax = min (nx - 1) (pixel_floor (x0k + h) nx R)
    \<and> 0 \<le> imin \<and> imax \<le> ny - 1 \<and> 0 \<le> jmin \<and> jmax \<le> nx - 1"
  using bounding_box_Inr [OF assms] by (simp add: min_def max_def)

theorem bounding_box_axes_witness:
  "bounding_box 4 4 (- 1) (1 / 2) (28 / 100) 1 = Inr (2, 3, 0, 0)
    \<and> (2::int) = max 0 (pixel_floor (1 / 2 - 28 / 100) 4 1)
    \<and> (3::int) = min (4 - 1) (pixel_floor (1 / 2 + 28 / 100) 4 1)
    \<and> (0::int) = max 0 (pixel_floor (- 1 - 28 / 100) 4 1)
    \<and> (0::int) = min (4 - 1) (pixel_floor (- 1 + 28 / 100) 4 1)"
  using bounding_box_axes [OF box_example] box_example by simp

text \<open>
  C4, as the specification words it, fails: on a 4 by 4 grid with \<open>num_rhalfs = 1\<close>, a
  source at \<open>x0 = - 1\<close>, \<open>y0 = 1 / 2\<close> with \<open>h = 0.28\<close> gets rows 2 to 3 and column 0
  from the source, and rows 0 to 0 and columns 2 to 3 from the sentence of section 6.
\<close>

theorem bounding_box_axes_counterexample:
  "bounding_box 4 4 (- 1) (1 / 2) (28 / 100) 1 = Inr (2, 3, 0, 0)
    \<and> axis_convention_box 4 4 (- 1) (1 / 2) (28 / 100) 1 = (0, 0, 2, 3)
    \<and> bounding_box 4 4 (- 1) (1 / 2) (28 / 100) 1
      \<noteq> Inr (axis_convention_box 4 4 (- 1) (1 / 2) (28 / 100) 1)"
  by (simp add: bounding_box_def rhalfs_to_pixels_def axis_convention_box_def pixel_floor_def
      int_ok_def)

section \<open>Sources that miss the grid\<close>









section \<open>Array accesses\<close>

lemma upto_0_1: "[0..1] = [0, 1::int]"
  by (simp add: upto_rec1)

text \<open>
  C2. The claim is that under the invariants of section 3 of the specification every
  index \<open>n = i*ny + j\<close> at which \<open>add\<close> accesses \<open>X\<close>, \<open>Y\<close> or \<open>Z\<close> is below \<open>nx*ny\<close>,
  also when \<open>nx \<noteq> ny\<close>. The source clips \<open>i\<close> to \<open>[0, ny - 1]\<close> and \<open>j\<close> to
  \<open>[0, nx - 1]\<close> but strides the rows by \<open>ny\<close>, so with \<open>nx < ny\<close> the last rows fall
  outside the arrays. Here \<open>nx = 1\<close>, \<open>ny = 2\<close>, the three grids have \<open>nx*ny = 2\<close>
  cells, \<open>num_rhalfs = 1\<close>, and the one source sits at the origin with \<open>hsml = 1\<close>: the
  box is rows 0 to 1, column 0, and the cell \<open>(1, 0)\<close> has index \<open>1*2 + 0 = 2\<close>.
\<close>

theorem add_out_of_bounds_example:
  "add [0, 0] [- 1 / 2, 1 / 2] [0, 0] 1 2 [0] [0] [1] [1] 1 1 = Inl Out_Of_Bounds"
  by (simp add: add_def add_source_def add_point_def bounding_box_def rhalfs_to_pixels_def
      pixel_floor_def int_ok_def add_cell_def read_def upto_0_1 num_hsml_def)

section \<open>What the accumulator adds\<close>

lemma bounding_box_clipped:
  "bounding_box nx ny x0k y0k h R = Inr b \<Longrightarrow> b = clipped_box nx ny x0k y0k h R"
  unfolding clipped_box_def by (cases b) (auto dest: bounding_box_Inr)

lemma read_Inr: "read xs n = Inr v \<Longrightarrow> 0 \<le> n \<and> nat n < length xs \<and> v = xs ! nat n"
  by (auto simp: read_def split: if_splits)

lemma add_cell_Inr:
  assumes "add_cell X Y ny x0k y0k wk h i j Z = Inr Z'"
  shows "\<exists>w. wk = Inr w \<and> 0 \<le> i * ny + j \<and> nat (i * ny + j) < length Z
    \<and> Z' = Z[nat (i * ny + j) := Z ! nat (i * ny + j)
        + w * sph_kernel (sqrt ((X ! nat (i * ny + j) - x0k) * (X ! nat (i * ny + j) - x0k)
            + (Y ! nat (i * ny + j) - y0k) * (Y ! nat (i * ny + j) - y0k))) h]"
  using assms unfolding add_cell_def Let_def
  by (auto split: if_splits sum.splits dest!: read_Inr)

lemma add_cell_accumulates:
  assumes "add_cell X Y ny x0k y0k wk h i j Z = Inr Z'"
    and wk: "\<And>v. wk = Inr v \<Longrightarrow> v = w"
  shows "length Z' = length Z
    \<and> (\<forall>n<length Z. Z' ! n = Z ! n + cell_term X Y ny x0k y0k w h i j n)"
proof -
  let ?n = "nat (i * ny + j)"
  from add_cell_Inr [OF assms(1)] wk
  have n: "0 \<le> i * ny + j" "?n < length Z"
    and Z': "Z' = Z[?n := Z ! ?n
        + w * sph_kernel (sqrt ((X ! ?n - x0k) * (X ! ?n - x0k) + (Y ! ?n - y0k) * (Y ! ?n - y0k))) h]"
    by auto
  have "Z' ! m = Z ! m + cell_term X Y ny x0k y0k w h i j m" if "m < length Z" for m
  proof (cases "m = ?n")
    case True
    then have "i * ny + j = int m"
      using n by simp
    then show ?thesis
      unfolding Z' cell_term_def using True that by simp
  next
    case False
    then have "i * ny + j \<noteq> int m"
      by auto
    then show ?thesis
      unfolding Z' cell_term_def using False by simp
  qed
  then show ?thesis
    unfolding Z' by simp
qed

lemma for_each_accumulates:
  assumes "\<And>a Z Z'. a \<in> set as \<Longrightarrow> body a Z = Inr Z'
      \<Longrightarrow> length Z' = length Z \<and> (\<forall>n<length Z. Z' ! n = (Z ! n :: real) + c a n)"
    and "for_each body as Z = Inr Z'"
  shows "length Z' = length Z \<and> (\<forall>n<length Z. Z' ! n = Z ! n + (\<Sum>a\<leftarrow>as. c a n))"
  using assms
proof (induction as arbitrary: Z)
  case Nil
  then show ?case by simp
next
  case (Cons a as)
  from Cons.prems(2) obtain Z1 where a: "body a Z = Inr Z1" and rest: "for_each body as Z1 = Inr Z'"
    by (auto split: sum.splits)
  have 1: "length Z1 = length Z" "\<forall>n<length Z. Z1 ! n = Z ! n + c a n"
    using Cons.prems(1) [OF _ a] by auto
  have 2: "length Z' = length Z1 \<and> (\<forall>n<length Z1. Z' ! n = Z1 ! n + (\<Sum>a\<leftarrow>as. c a n))"
    by (rule Cons.IH [OF _ rest]) (use Cons.prems(1) in auto)
  show ?case
    using 1 2 by (simp add: add.assoc)
qed

lemma add_point_accumulates:
  assumes "add_point X Y nx ny x0k y0k wk hsmlk R Z = Inr Z'"
    and wk: "\<And>v. wk = Inr v \<Longrightarrow> v = w"
  shows "length Z' = length Z
    \<and> (\<forall>n<length Z. Z' ! n = Z ! n + contribution X Y nx ny R x0k y0k w hsmlk n)"
proof -
  let ?h = "num_hsml * hsmlk"
  obtain imin imax jmin jmax where box: "bounding_box nx ny x0k y0k ?h R = Inr (imin, imax, jmin, jmax)"
    and run: "for_each (\<lambda>i. for_each (add_cell X Y ny x0k y0k wk ?h i) [jmin..jmax])
        [imin..imax] Z = Inr Z'"
    using assms(1) unfolding add_point_def Let_def by (auto split: sum.splits)
  have cb: "clipped_box nx ny x0k y0k ?h R = (imin, imax, jmin, jmax)"
    using bounding_box_clipped [OF box] by simp
  have "length Z' = length Z \<and> (\<forall>n<length Z. Z' ! n = Z ! n
      + (\<Sum>i\<leftarrow>[imin..imax]. \<Sum>j\<leftarrow>[jmin..jmax]. cell_term X Y ny x0k y0k w ?h i j n))"
  proof (rule for_each_accumulates [OF _ run])
    fix i Z1 Z2
    assume "for_each (add_cell X Y ny x0k y0k wk ?h i) [jmin..jmax] Z1 = Inr Z2"
    then show "length Z2 = length Z1 \<and> (\<forall>n<length Z1. Z2 ! n = Z1 ! n
        + (\<Sum>j\<leftarrow>[jmin..jmax]. cell_term X Y ny x0k y0k w ?h i j n))"
      by (rule for_each_accumulates [rotated]) (rule add_cell_accumulates [OF _ wk])
  qed
  then show ?thesis
    unfolding contribution_def Let_def cb by simp
qed

lemma add_source_accumulates:
  assumes "add_source X Y nx ny x0 y0 weights hsml R k Z = Inr Z'"
  shows "length Z' = length Z
    \<and> (\<forall>n<length Z. Z' ! n = Z ! n
        + contribution X Y nx ny R (x0 ! nat k) (y0 ! nat k) (weights ! nat k) (hsml ! nat k) n)"
proof -
  obtain hsmlk y0k x0k where reads: "read hsml k = Inr hsmlk" "read y0 k = Inr y0k"
      "read x0 k = Inr x0k"
    and run: "add_point X Y nx ny x0k y0k (read weights k) hsmlk R Z = Inr Z'"
    using assms unfolding add_source_def by (auto split: sum.splits)
  have vals: "hsmlk = hsml ! nat k" "y0k = y0 ! nat k" "x0k = x0 ! nat k"
    using reads by (auto dest: read_Inr)
  have "v = weights ! nat k" if "read weights k = Inr v" for v
    using that by (auto dest: read_Inr)
  then show ?thesis
    unfolding vals [symmetric] by (rule add_point_accumulates [OF run])
qed

lemma add_run_accumulates:
  assumes "add X Y Z nx ny x0 y0 weights hsml npoints R = Inr Z'"
  shows "length Z' = length Z
    \<and> (\<forall>n<length Z. Z' ! n = Z ! n
        + (\<Sum>k\<leftarrow>[0..npoints - 1].
            contribution X Y nx ny R (x0 ! nat k) (y0 ! nat k) (weights ! nat k) (hsml ! nat k) n))"
  using assms unfolding add_def
  by (rule for_each_accumulates [rotated]) (rule add_source_accumulates)

lemma unit_run: "add [0] [0] [0] 1 1 [0] [0] [1] [1] 1 1 = Inr [sph_kernel 0 num_hsml]"
  by (simp add: add_def add_source_def add_point_def bounding_box_def rhalfs_to_pixels_def
      pixel_floor_def int_ok_def add_cell_def read_def num_hsml_def)

section \<open>Additivity across sources\<close>

lemma shift_invariantI:
  assumes "\<And>Z D. length D = length Z \<Longrightarrow>
      f (map2 (+) Z D) = (case f Z of Inl e \<Rightarrow> Inl e | Inr Z' \<Rightarrow> Inr (map2 (+) Z' D))"
    and "\<And>Z Z'. f Z = Inr Z' \<Longrightarrow> length Z' = length Z"
  shows "shift_invariant f"
  using assms unfolding shift_invariant_def by blast

lemma shift_invariantD:
  assumes "shift_invariant f"
  shows "length D = length Z \<Longrightarrow>
      f (map2 (+) Z D) = (case f Z of Inl e \<Rightarrow> Inl e | Inr Z' \<Rightarrow> Inr (map2 (+) Z' D))"
    and "f Z = Inr Z' \<Longrightarrow> length Z' = length Z"
  using assms unfolding shift_invariant_def by blast+

lemma nth_map2_add:
  fixes Z D :: "real list"
  assumes "length D = length Z" and "n < length Z"
  shows "map2 (+) Z D ! n = Z ! n + D ! n"
  using assms by simp

lemma map2_update:
  fixes Z D :: "real list"
  assumes "length D = length Z" and "n < length Z"
  shows "(map2 (+) Z D)[n := Z ! n + D ! n + c] = map2 (+) (Z[n := Z ! n + c]) D"
  using assms by (intro nth_equalityI) (auto simp: nth_list_update)

lemma read_map2:
  fixes Z D :: "real list"
  assumes "length D = length Z"
  shows "read (map2 (+) Z D) n = (case read Z n of Inl e \<Rightarrow> Inl e | Inr v \<Rightarrow> Inr (v + D ! nat n))"
proof (cases "0 \<le> n \<and> n < int (length Z)")
  case True
  then have "nat n < length Z"
    by linarith
  then show ?thesis
    using True assms by (simp add: read_def)
next
  case False
  then show ?thesis
    using assms by (auto simp: read_def)
qed

lemma add_cell_shift_invariant: "shift_invariant (add_cell X Y ny x0k y0k wk h i j)"
proof (rule shift_invariantI)
  fix Z D :: "real list"
  assume len: "length D = length Z"
  let ?n = "i * ny + j"
  show "add_cell X Y ny x0k y0k wk h i j (map2 (+) Z D)
      = (case add_cell X Y ny x0k y0k wk h i j Z of Inl e \<Rightarrow> Inl e | Inr Z' \<Rightarrow> Inr (map2 (+) Z' D))"
  proof (cases "read Z ?n")
    case (Inl e)
    then show ?thesis
      unfolding add_cell_def Let_def read_map2 [OF len] by (simp split: sum.splits)
  next
    case (Inr Zn)
    then have "nat ?n < length Z" and "Zn = Z ! nat ?n"
      by (auto dest: read_Inr)
    then show ?thesis
      unfolding add_cell_def Let_def read_map2 [OF len] Inr
      by (simp split: sum.splits add: map2_update [OF len])
  qed
next
  fix Z Z' :: "real list"
  assume "add_cell X Y ny x0k y0k wk h i j Z = Inr Z'"
  then show "length Z' = length Z"
    by (auto dest: add_cell_Inr)
qed

lemma for_each_shift_invariant:
  assumes "\<And>a. a \<in> set as \<Longrightarrow> shift_invariant (body a)"
  shows "shift_invariant (for_each body as)"
  using assms
proof (induction as)
  case Nil
  show ?case by (rule shift_invariantI) simp_all
next
  case (Cons a as)
  have a: "shift_invariant (body a)" and rest: "shift_invariant (for_each body as)"
    using Cons by simp_all
  show ?case
  proof (rule shift_invariantI)
    fix Z D :: "real list"
    assume len: "length D = length Z"
    show "for_each body (a # as) (map2 (+) Z D)
        = (case for_each body (a # as) Z of Inl e \<Rightarrow> Inl e | Inr Z' \<Rightarrow> Inr (map2 (+) Z' D))"
    proof (cases "body a Z")
      case (Inl e)
      then show ?thesis
        by (simp add: shift_invariantD(1) [OF a len])
    next
      case (Inr Z1)
      then have "length D = length Z1"
        using shift_invariantD(2) [OF a Inr] len by simp
      then show ?thesis
        using Inr by (simp add: shift_invariantD(1) [OF a len] shift_invariantD(1) [OF rest])
    qed
  next
    fix Z Z' :: "real list"
    assume "for_each body (a # as) Z = Inr Z'"
    then obtain Z1 where 1: "body a Z = Inr Z1" and 2: "for_each body as Z1 = Inr Z'"
      by (auto split: sum.splits)
    show "length Z' = length Z"
      using shift_invariantD(2) [OF a 1] shift_invariantD(2) [OF rest 2] by simp
  qed
qed

lemma add_point_shift_invariant: "shift_invariant (add_point X Y nx ny x0k y0k wk hsmlk R)"
proof (cases "bounding_box nx ny x0k y0k (num_hsml * hsmlk) R")
  case (Inl e)
  then have "add_point X Y nx ny x0k y0k wk hsmlk R = (\<lambda>Z. Inl e)"
    unfolding add_point_def Let_def by (intro ext) simp
  then show ?thesis
    by (simp add: shift_invariant_def)
next
  case (Inr b)
  obtain imin imax jmin jmax where b: "b = (imin, imax, jmin, jmax)"
    by (cases b)
  have "add_point X Y nx ny x0k y0k wk hsmlk R
      = for_each (\<lambda>i. for_each (add_cell X Y ny x0k y0k wk (num_hsml * hsmlk) i) [jmin..jmax]) [imin..imax]"
    unfolding add_point_def Let_def using Inr b by (intro ext) simp
  then show ?thesis
    by (simp only: for_each_shift_invariant add_cell_shift_invariant)
qed

lemma add_source_shift_invariant: "shift_invariant (add_source X Y nx ny x0 y0 weights hsml R k)"
proof -
  consider e where "add_source X Y nx ny x0 y0 weights hsml R k = (\<lambda>Z. Inl e)"
    | hsmlk y0k x0k where "add_source X Y nx ny x0 y0 weights hsml R k
        = add_point X Y nx ny x0k y0k (read weights k) hsmlk R"
    unfolding add_source_def by (cases "read hsml k"; cases "read y0 k"; cases "read x0 k") auto
  then show ?thesis
  proof cases
    case 1
    then show ?thesis
      by (simp add: shift_invariant_def)
  next
    case 2
    then show ?thesis
      by (simp only: add_point_shift_invariant)
  qed
qed

lemma for_each_append:
  "for_each body (as @ bs) s
    = (case for_each body as s of Inl e \<Rightarrow> Inl e | Inr s' \<Rightarrow> for_each body bs s')"
  by (induction as arbitrary: s) (simp_all split: sum.splits)

lemma for_each_map: "for_each body (map g as) s = for_each (\<lambda>a. body (g a)) as s"
  by (induction as arbitrary: s) (simp_all split: sum.splits)

lemma for_each_cong:
  "(\<And>a. a \<in> set as \<Longrightarrow> body a = body' a) \<Longrightarrow> for_each body as s = for_each body' as s"
  by (induction as arbitrary: s) (simp_all split: sum.splits)

lemma upto_shift: "[a..a + n - 1] = map (\<lambda>k. k + a) [0..n - 1]"
  by (intro nth_equalityI) (auto simp: nth_upto)

lemma read_append_left: "k < int (length xs) \<Longrightarrow> read (xs @ ys) k = read xs k"
  by (auto simp: read_def nth_append)

lemma read_append_right: "0 \<le> k \<Longrightarrow> read (xs @ ys) (k + int (length xs)) = read ys k"
  by (auto simp: read_def nth_append nat_add_distrib)

lemma map2_zeros:
  fixes Z :: "real list"
  shows "map2 (+) (replicate (length Z) 0) Z = Z"
  by (intro nth_equalityI) auto

lemma map2_commute:
  fixes A B :: "real list"
  shows "map2 (+) A B = map2 (+) B A"
  by (intro nth_equalityI) (auto simp: add.commute)

lemma add_shift_invariant: "shift_invariant (\<lambda>Z. add X Y Z nx ny x0 y0 weights hsml npoints R)"
  unfolding add_def by (intro for_each_shift_invariant add_source_shift_invariant)

text \<open>
  C8. In exact arithmetic the accumulator is additive across sources. Two source
  sequences are given by their four arrays and their counts \<open>na\<close> and \<open>nb\<close>, the arrays
  of the first having exactly \<open>na\<close> entries. Running \<open>add\<close> on the concatenated arrays
  with \<open>na + nb\<close> sources from a zeroed \<open>Z\<close> faults if and only if one of the two
  separate runs from the zeroed \<open>Z\<close> faults (with the fault of the first that does),
  and otherwise returns, cell by cell, the sum of the two fields.
\<close>

theorem add_additive:
  assumes len: "length x0a = nat na" "length y0a = nat na" "length wa = nat na" "length ha = nat na"
    and n: "0 \<le> na" "0 \<le> nb"
  shows "add X Y (replicate m 0) nx ny (x0a @ x0b) (y0a @ y0b) (wa @ wb) (ha @ hb) (na + nb) R
    = (case add X Y (replicate m 0) nx ny x0a y0a wa ha na R of Inl e \<Rightarrow> Inl e
       | Inr Za \<Rightarrow>
           (case add X Y (replicate m 0) nx ny x0b y0b wb hb nb R of Inl e \<Rightarrow> Inl e
            | Inr Zb \<Rightarrow> Inr (map2 (+) Za Zb)))"
proof -
  let ?ab = "add_source X Y nx ny (x0a @ x0b) (y0a @ y0b) (wa @ wb) (ha @ hb) R"
  let ?a = "add_source X Y nx ny x0a y0a wa ha R"
  let ?b = "add_source X Y nx ny x0b y0b wb hb R"
  let ?Z0 = "replicate m (0::real)"
  have lens: "int (length x0a) = na" "int (length y0a) = na" "int (length wa) = na"
      "int (length ha) = na"
    using len n by simp_all
  have split: "[0..na + nb - 1] = [0..na - 1] @ [na..na + nb - 1]"
  proof (cases "nb = 0")
    case True
    then show ?thesis by simp
  next
    case False
    then show ?thesis
      using n by (intro upto_split1) auto
  qed
  have first: "for_each ?ab [0..na - 1] Z = for_each ?a [0..na - 1] Z" for Z
  proof (rule for_each_cong)
    fix k assume "k \<in> set [0..na - 1]"
    then have "k < na" by simp
    then have "read (x0a @ x0b) k = read x0a k" "read (y0a @ y0b) k = read y0a k"
        "read (wa @ wb) k = read wa k" "read (ha @ hb) k = read ha k"
      using lens by (simp_all only: read_append_left)
    then show "?ab k = ?a k"
      unfolding add_source_def by (simp only:)
  qed
  have second: "for_each ?ab [na..na + nb - 1] Z = for_each ?b [0..nb - 1] Z" for Z
  proof -
    have "for_each ?ab [na..na + nb - 1] Z = for_each (\<lambda>k. ?ab (k + na)) [0..nb - 1] Z"
      unfolding upto_shift for_each_map ..
    also have "\<dots> = for_each ?b [0..nb - 1] Z"
    proof (rule for_each_cong)
      fix k assume "k \<in> set [0..nb - 1]"
      then have k: "0 \<le> k" by simp
      have "read (x0a @ x0b) (k + na) = read x0b k" "read (y0a @ y0b) (k + na) = read y0b k"
        "read (wa @ wb) (k + na) = read wb k" "read (ha @ hb) (k + na) = read hb k"
        using read_append_right [OF k, of x0a x0b] read_append_right [OF k, of y0a y0b]
          read_append_right [OF k, of wa wb] read_append_right [OF k, of ha hb]
        unfolding lens by simp_all
      then show "?ab (k + na) = ?b k"
        unfolding add_source_def by (simp only:)
    qed
    finally show ?thesis .
  qed
  have whole: "add X Y ?Z0 nx ny (x0a @ x0b) (y0a @ y0b) (wa @ wb) (ha @ hb) (na + nb) R
      = (case add X Y ?Z0 nx ny x0a y0a wa ha na R of Inl e \<Rightarrow> Inl e
         | Inr Za \<Rightarrow> for_each ?b [0..nb - 1] Za)"
    unfolding add_def split for_each_append first second ..
  show ?thesis
  proof (cases "add X Y ?Z0 nx ny x0a y0a wa ha na R")
    case (Inl e)
    then show ?thesis
      unfolding whole by simp
  next
    case (Inr Za)
    then have "length Za = m"
      using shift_invariantD(2) [OF add_shift_invariant] by fastforce
    then have Za: "map2 (+) ?Z0 Za = Za" and len0: "length Za = length ?Z0"
      using map2_zeros [of Za] by simp_all
    have "for_each ?b [0..nb - 1] Za = for_each ?b [0..nb - 1] (map2 (+) ?Z0 Za)"
      unfolding Za ..
    also have "\<dots> = (case for_each ?b [0..nb - 1] ?Z0 of Inl e \<Rightarrow> Inl e
        | Inr Zb \<Rightarrow> Inr (map2 (+) Zb Za))"
      using shift_invariantD(1) [OF add_shift_invariant [unfolded add_def] len0] .
    also have "\<dots> = (case add X Y ?Z0 nx ny x0b y0b wb hb nb R of Inl e \<Rightarrow> Inl e
        | Inr Zb \<Rightarrow> Inr (map2 (+) Za Zb))"
      unfolding add_def by (simp add: map2_commute [of Za] split: sum.splits)
    finally show ?thesis
      unfolding whole Inr by simp
  qed
qed

lemma unit_run_2: "add [0] [0] [0] 1 1 [0] [0] [2] [1] 1 1 = Inr [2 * sph_kernel 0 num_hsml]"
  by (simp add: add_def add_source_def add_point_def bounding_box_def rhalfs_to_pixels_def
      pixel_floor_def int_ok_def add_cell_def read_def num_hsml_def)

theorem add_additive_witness:
  "length [0::real] = nat 1 \<and> (0::int) \<le> 1
    \<and> add [0] [0] [0] 1 1 [0, 0] [0, 0] [1, 2] [1, 1] 2 1
      = Inr [sph_kernel 0 num_hsml + 2 * sph_kernel 0 num_hsml]"
  using add_additive [where ?x0a = "[0]" and ?y0a = "[0]" and ?wa = "[1]" and ?ha = "[1]" and ?na = 1
      and ?nb = 1 and ?x0b = "[0]" and ?y0b = "[0]" and ?wb = "[2]" and ?hb = "[1]" and ?m = 1
      and ?X = "[0]" and ?Y = "[0]" and ?nx = 1 and ?ny = 1 and ?R = 1]
  by (simp add: unit_run unit_run_2)

section \<open>Runs without fault\<close>

text \<open>
  On a grid with \<open>1 \<le> ny \<le> nx\<close> whose \<open>nx*ny\<close> cells can be counted by an \<open>int\<close>, with
  the three grids of \<open>nx*ny\<close> cells, at least \<open>npoints\<close> entries in the four source arrays,
  \<open>num_rhalfs \<noteq> 0\<close>, and every source with a non-zero smoothing length and bounds that fit
  an \<open>int\<close>, the run of \<open>add\<close> has no fault: in particular every access is in bounds.
\<close>

lemma for_each_defined:
  assumes "\<And>a s. a \<in> set as \<Longrightarrow> P s \<Longrightarrow> \<exists>s'. body a s = Inr s' \<and> P s'"
    and "P s"
  shows "\<exists>s'. for_each body as s = Inr s' \<and> P s'"
  using assms
proof (induction as arbitrary: s)
  case Nil
  then show ?case by simp
next
  case (Cons a as)
  obtain s1 where 1: "body a s = Inr s1" "P s1"
    using Cons.prems(1) [of a s] Cons.prems(2) by auto
  have "\<exists>s'. for_each body as s1 = Inr s' \<and> P s'"
    by (rule Cons.IH [OF _ 1(2)]) (use Cons.prems(1) in auto)
  then show ?case
    using 1 by simp
qed

lemma grid_index_bound:
  fixes nx ny i j :: int
  assumes "1 \<le> ny" "ny \<le> nx" "0 \<le> i" "i \<le> ny - 1" "0 \<le> j" "j \<le> nx - 1"
  shows "0 \<le> i * ny" and "i * ny \<le> i * ny + j" and "i * ny + j < nx * ny"
proof -
  show "0 \<le> i * ny"
    using assms by simp
  show "i * ny \<le> i * ny + j"
    using assms by simp
  have "i * ny \<le> (ny - 1) * ny"
    using assms by (intro mult_right_mono) auto
  also have "\<dots> \<le> (ny - 1) * nx"
    using assms by (intro mult_left_mono) auto
  finally have "i * ny + j \<le> (ny - 1) * nx + (nx - 1)"
    using assms by linarith
  also have "\<dots> = nx * ny - 1"
    by (simp add: algebra_simps)
  finally show "i * ny + j < nx * ny"
    by simp
qed

lemma int_ok_between: "int_ok a \<Longrightarrow> int_ok b \<Longrightarrow> a \<le> v \<Longrightarrow> v \<le> b \<Longrightarrow> int_ok v"
  unfolding int_ok_def by linarith

lemma int_ok_0: "int_ok 0"
  by (simp add: int_ok_def)

lemma read_in_range: "0 \<le> n \<Longrightarrow> n < int (length xs) \<Longrightarrow> read xs n = Inr (xs ! nat n)"
  by (simp add: read_def)

lemma add_cell_defined:
  assumes grid: "1 \<le> ny" "ny \<le> nx" "int_ok (nx * ny)"
    and cells: "length X = nat (nx * ny)" "length Y = nat (nx * ny)" "length Z = nat (nx * ny)"
    and ij: "0 \<le> i" "i \<le> ny - 1" "0 \<le> j" "j \<le> nx - 1"
    and h: "h \<noteq> 0"
  shows "\<exists>Z'. add_cell X Y ny x0k y0k (Inr w) h i j Z = Inr Z' \<and> length Z' = nat (nx * ny)"
proof -
  note b = grid_index_bound [OF grid(1,2) ij]
  have ok1: "int_ok (i * ny)"
    by (rule int_ok_between [OF int_ok_0 grid(3)]) (use b in linarith)+
  have ok2: "int_ok (i * ny + j)"
    by (rule int_ok_between [OF int_ok_0 grid(3)]) (use b in linarith)+
  have n: "0 \<le> i * ny + j" "i * ny + j < int (nat (nx * ny))"
    using b by linarith+
  have reads: "read X (i * ny + j) = Inr (X ! nat (i * ny + j))"
    "read Y (i * ny + j) = Inr (Y ! nat (i * ny + j))"
    "read Z (i * ny + j) = Inr (Z ! nat (i * ny + j))"
    using n cells by (simp_all only: read_in_range)
  show ?thesis
    unfolding add_cell_def Let_def reads using ok1 ok2 h cells(3) by simp
qed

lemma bounding_box_defined:
  assumes "R \<noteq> 0" and "casts_defined nx ny x0k y0k h R" and "int_ok (ny - 1)" and "int_ok (nx - 1)"
  shows "bounding_box nx ny x0k y0k h R = Inr (clipped_box nx ny x0k y0k h R)"
  using assms unfolding bounding_box_def rhalfs_to_pixels_def casts_defined_def clipped_box_def
  by simp

lemma clipped_box_range:
  assumes "clipped_box nx ny x0k y0k h R = (imin, imax, jmin, jmax)"
  shows "0 \<le> imin" "imax \<le> ny - 1" "0 \<le> jmin" "jmax \<le> nx - 1"
  using assms unfolding clipped_box_def by auto

lemma add_point_defined:
  assumes grid: "1 \<le> ny" "ny \<le> nx" "int_ok (nx * ny)"
    and cells: "length X = nat (nx * ny)" "length Y = nat (nx * ny)" "length Z = nat (nx * ny)"
    and R: "R \<noteq> 0" and h: "hsmlk \<noteq> 0"
    and casts: "casts_defined nx ny x0k y0k (num_hsml * hsmlk) R"
  shows "\<exists>Z'. add_point X Y nx ny x0k y0k (Inr w) hsmlk R Z = Inr Z' \<and> length Z' = nat (nx * ny)"
proof -
  let ?h = "num_hsml * hsmlk"
  obtain imin imax jmin jmax where cb: "clipped_box nx ny x0k y0k ?h R = (imin, imax, jmin, jmax)"
    by (cases "clipped_box nx ny x0k y0k ?h R")
  note range = clipped_box_range [OF cb]
  have le: "nx * 1 \<le> nx * ny"
    using grid by (intro mult_left_mono) auto
  have "int_ok (ny - 1)"
    by (rule int_ok_between [OF int_ok_0 grid(3)]) (use grid le in linarith)+
  moreover have "int_ok (nx - 1)"
    by (rule int_ok_between [OF int_ok_0 grid(3)]) (use grid le in linarith)+
  ultimately have box: "bounding_box nx ny x0k y0k ?h R = Inr (imin, imax, jmin, jmax)"
    using bounding_box_defined [OF R casts] cb by simp
  have h': "?h \<noteq> 0"
    using h by (simp add: num_hsml_def)
  have "\<exists>Z'. for_each (\<lambda>i. for_each (add_cell X Y ny x0k y0k (Inr w) ?h i) [jmin..jmax]) [imin..imax] Z
      = Inr Z' \<and> length Z' = nat (nx * ny)"
  proof (rule for_each_defined [where P = "\<lambda>Z. length Z = nat (nx * ny)"])
    fix i and Z1 :: "real list"
    assume i: "i \<in> set [imin..imax]" and len1: "length Z1 = nat (nx * ny)"
    show "\<exists>Z'. for_each (add_cell X Y ny x0k y0k (Inr w) ?h i) [jmin..jmax] Z1 = Inr Z'
        \<and> length Z' = nat (nx * ny)"
    proof (rule for_each_defined [where P = "\<lambda>Z. length Z = nat (nx * ny)"])
      fix j and Z2 :: "real list"
      assume j: "j \<in> set [jmin..jmax]" and len2: "length Z2 = nat (nx * ny)"
      have "0 \<le> i" "i \<le> ny - 1" "0 \<le> j" "j \<le> nx - 1"
        using i j range by auto
      then show "\<exists>Z'. add_cell X Y ny x0k y0k (Inr w) ?h i j Z2 = Inr Z' \<and> length Z' = nat (nx * ny)"
        by (rule add_cell_defined [OF grid cells(1,2) len2 _ _ _ _ h'])
    qed (rule len1)
  qed (rule cells(3))
  then show ?thesis
    unfolding add_point_def Let_def box by simp
qed

lemma add_defined:
  assumes grid: "1 \<le> ny" "ny \<le> nx" "int_ok (nx * ny)"
    and cells: "length X = nat (nx * ny)" "length Y = nat (nx * ny)" "length Z = nat (nx * ny)"
    and R: "R \<noteq> 0"
    and arrays: "npoints \<le> int (length x0)" "npoints \<le> int (length y0)"
      "npoints \<le> int (length weights)" "npoints \<le> int (length hsml)"
    and srcs: "\<And>k. k < nat npoints \<Longrightarrow> hsml ! k \<noteq> 0
      \<and> casts_defined nx ny (x0 ! k) (y0 ! k) (num_hsml * hsml ! k) R"
  shows "\<exists>Z'. add X Y Z nx ny x0 y0 weights hsml npoints R = Inr Z' \<and> length Z' = length Z"
proof -
  have "\<exists>Z'. for_each (add_source X Y nx ny x0 y0 weights hsml R) [0..npoints - 1] Z = Inr Z'
      \<and> length Z' = nat (nx * ny)"
  proof (rule for_each_defined [where P = "\<lambda>Z. length Z = nat (nx * ny)"])
    fix k and Z1 :: "real list"
    assume k: "k \<in> set [0..npoints - 1]" and len1: "length Z1 = nat (nx * ny)"
    then have k': "0 \<le> k" "k < npoints" "nat k < nat npoints"
      by auto
    then have reads: "read hsml k = Inr (hsml ! nat k)" "read y0 k = Inr (y0 ! nat k)"
      "read x0 k = Inr (x0 ! nat k)" "read weights k = Inr (weights ! nat k)"
      using arrays by (auto simp: read_def)
    show "\<exists>Z'. add_source X Y nx ny x0 y0 weights hsml R k Z1 = Inr Z' \<and> length Z' = nat (nx * ny)"
      unfolding add_source_def reads using srcs [OF k'(3)]
      by (simp add: add_point_defined [OF grid cells(1,2) len1 R])
  qed (rule cells(3))
  then show ?thesis
    unfolding add_def cells(3) .
qed

section \<open>Properties of binary64 rounding\<close>

text \<open>
  How \<open>rnd\<close> is evaluated on a number whose binade is known, and that it leaves the
  numbers of the format as they are.
\<close>

lemma rhe_of_int: "rhe (of_int n) = n"
  by (simp add: rhe_def)

lemma floor_log2_eq:
  assumes "2 powi k \<le> x" and "x < 2 powi (k + 1)"
  shows "\<lfloor>log 2 x\<rfloor> = k"
proof -
  have pos: "0 < x"
    proof -
    have "(0::real) < 2 powi k"
      by simp
    then show ?thesis
      using assms(1) by linarith
  qed
  have "(2::real) powr real_of_int k = 2 powi k"
    by (rule powr_real_of_int') simp_all
  moreover have "(2::real) powr (real_of_int k + 1) = 2 powi (k + 1)"
    using powr_real_of_int' [of 2 "k + 1"] by simp
  ultimately show ?thesis
    using assms floor_log_eq_powr_iff [of x 2 k] pos by simp
qed

lemma ulp_exp_eq:
  assumes "2 powi k \<le> \<bar>x\<bar>" and "\<bar>x\<bar> < 2 powi (k + 1)"
  shows "ulp_exp x = max (k - 52) (- 1074)"
  unfolding ulp_exp_def floor_log2_eq [OF assms] ..

lemma rnd_eval:
  assumes "2 powi k \<le> \<bar>x\<bar>" and "\<bar>x\<bar> < 2 powi (k + 1)" and "e = max (k - 52) (- 1074)"
  shows "rnd x = of_int (rhe (x / 2 powi e)) * 2 powi e"
proof -
  have "x \<noteq> 0"
    proof -
    have "(0::real) < 2 powi k"
      by simp
    then show ?thesis
      using assms(1) by linarith
  qed
  then show ?thesis
    unfolding rnd_def ulp_exp_eq [OF assms(1,2)] assms(3) by simp
qed

lemma rnd_exact:
  assumes "is_b64 x"
  shows "rnd x = x"
proof (cases "x = 0")
  case True
  then show ?thesis by (simp add: rnd_def)
next
  case False
  obtain m e where x: "x = of_int m * 2 powi e" and m: "\<bar>m\<bar> < 2 ^ 53" and e: "- 1074 \<le> e"
    using assms unfolding is_b64_def by blast
  define c where "c = ulp_exp x"
  have "\<bar>x\<bar> = of_int \<bar>m\<bar> * 2 powi e"
    unfolding x by (simp add: abs_mult)
  also have "\<dots> < 2 ^ 53 * 2 powi e"
    using m by (intro mult_strict_right_mono) (auto simp: of_int_less_iff [of _ "2 ^ 53", where ?'a = real, simplified])
  also have "\<dots> = 2 powi (e + 53)"
    by (simp add: power_int_add)
  finally have "\<bar>x\<bar> < 2 powi (e + 53)" .
  moreover have "(2::real) powr real_of_int (e + 53) = 2 powi (e + 53)"
    by (rule powr_real_of_int') simp_all
  ultimately have "log 2 \<bar>x\<bar> < real_of_int (e + 53)"
    using False log_less_iff [of 2 "\<bar>x\<bar>" "real_of_int (e + 53)"] by simp
  then have "\<lfloor>log 2 \<bar>x\<bar>\<rfloor> < e + 53"
    by (simp add: floor_less_iff)
  then have ce: "c \<le> e"
    using e unfolding c_def ulp_exp_def by simp
  define n where "n = m * 2 ^ nat (e - c)"
  have "2 powi e = (2::real) powi (e - c) * 2 powi c"
    by (simp add: power_int_add [symmetric])
  also have "(2::real) powi (e - c) = 2 ^ nat (e - c)"
    using ce by (simp add: power_int_def)
  finally have xn: "x = of_int n * 2 powi c"
    unfolding x n_def by simp
  have "of_int n * 2 powi c / 2 powi c = (of_int n :: real)"
    by simp
  then have "rhe (x / 2 powi c) = n"
    unfolding xn [symmetric] by (simp only: rhe_of_int)
  then show ?thesis
    using False xn unfolding rnd_def c_def [symmetric] by simp
qed

text \<open>
  The operations on finite numbers, and \<open>round_b64_step\<close>, by which every rounding of a
  concrete operation below is checked: the binade \<open>k\<close> and the exponent \<open>e\<close> of the last
  place are given, and the nearest multiple of \<open>2 ^ e\<close> is computed.
\<close>

lemma is_b64I:
  "x = of_int m * 2 powi e \<Longrightarrow> \<bar>m\<bar> < 2 ^ 53 \<Longrightarrow> - 1074 \<le> e \<Longrightarrow> e \<le> 971 \<Longrightarrow> is_b64 x"
  unfolding is_b64_def by blast

lemma is_b64_bound:
  assumes "is_b64 x"
  shows "\<bar>x\<bar> < 2 ^ 1024"
proof -
  obtain m e where x: "x = of_int m * 2 powi e" and m: "\<bar>m\<bar> < 2 ^ 53" and e: "e \<le> 971"
    using assms unfolding is_b64_def by blast
  have m': "\<bar>real_of_int m\<bar> < 2 ^ 53"
    using m by (metis of_int_abs of_int_less_numeral_power_cancel_iff)
  have "\<bar>x\<bar> = \<bar>real_of_int m\<bar> * 2 powi e"
    unfolding x by (simp add: abs_mult)
  also have "\<dots> < 2 ^ 53 * 2 powi e"
    using m' by (intro mult_strict_right_mono) auto
  also have "\<dots> \<le> 2 ^ 53 * 2 powi 971"
    using e by (intro mult_left_mono power_int_increasing) auto
  also have "\<dots> = 2 ^ 1024"
    by (simp add: power_int_def)
  finally show ?thesis .
qed

lemma round_b64_exact:
  assumes "is_b64 x" and "x \<noteq> 0"
  shows "round_b64 s x = Fin x"
  using assms is_b64_bound [OF assms(1)] by (simp add: round_b64_def rnd_exact)

lemma round_b64_zero: "round_b64 s 0 = zero_of s"
  by (simp add: round_b64_def rnd_def)

lemma round_b64_eval:
  assumes "rnd x = y" and "y \<noteq> 0" and "\<bar>y\<bar> < 2 ^ 1024"
  shows "round_b64 s x = Fin y"
  using assms by (simp add: round_b64_def)

lemma round_b64_underflow:
  assumes "rnd x = 0"
  shows "round_b64 s x = zero_of s"
  using assms by (simp add: round_b64_def)

lemma fmul_Fin: "fmul (Fin a) (Fin b) = round_b64 ((a < 0) \<noteq> (b < 0)) (a * b)"
  by (simp add: fmul_def is_inf_def)

lemma fdiv_Fin: "b \<noteq> 0 \<Longrightarrow> fdiv (Fin a) (Fin b) = round_b64 ((a < 0) \<noteq> (b < 0)) (a / b)"
  by (simp add: fdiv_def is_inf_def is_zero_def)

lemma fdiv_Fin_zero: "a \<noteq> 0 \<Longrightarrow> fdiv (Fin a) (Fin 0) = inf_of (a < 0)"
  by (simp add: fdiv_def is_inf_def is_zero_def)

lemma fadd_Fin:
  "fadd (Fin a) (Fin b) = (if a + b = 0 then Fin 0 else round_b64 (a + b < 0) (a + b))"
  by (auto simp: fadd_def is_inf_def zero_of_def)

lemma fsub_Fin:
  "fsub (Fin a) (Fin b) = (if a - b = 0 then Fin 0 else round_b64 (a - b < 0) (a - b))"
  by (auto simp: fsub_def fadd_def is_inf_def zero_of_def)

lemma round_b64_step:
  assumes "2 powi k \<le> \<bar>x\<bar>" and "\<bar>x\<bar> < 2 powi (k + 1)" and "e = max (k - 52) (- 1074)"
    and "y = of_int (rhe (x / 2 powi e)) * 2 powi e" and "y \<noteq> 0" and "\<bar>y\<bar> < 2 ^ 1024"
  shows "round_b64 s x = Fin y"
  using assms(4-6) rnd_eval [OF assms(1-3)] by (simp add: round_b64_def)






section \<open>Properties of the kernel in binary64\<close>

lemma sph_kernel_b64_split: "sph_kernel_b64 r h = fmul (scale_b64 h) (retval_b64 (fdiv r h))"
  by (simp add: sph_kernel_b64_def retval_b64_def scale_b64_def Let_def)

lemma fmul_inf_zero: "fmul PInf (Fin 0) = NaN"
  by (simp add: fmul_def is_inf_def is_zero_def)

lemma fmul_inf_pos: "0 < a \<Longrightarrow> fmul PInf (Fin a) = PInf"
  by (simp add: fmul_def is_inf_def is_zero_def inf_of_def)

subsection \<open>Outside the support\<close>






subsection \<open>Two adjacent arguments\<close>

text \<open>
  The kernel at \<open>h = 1\<close> and at the adjacent doubles \<open>r1 = 4048655583777857 / 2 ^ 53\<close>
  (\<open>0.4494910647887381\<close>) and \<open>r2 = r1 + 2 ^ - 54\<close>, operation by operation.
\<close>

lemma mono_1: "fdiv (Fin (4048655583777857 / 2 ^ 53)) (Fin 1) = Fin (4048655583777857 / 2 ^ 53)"
  apply (simp add: fdiv_Fin)
  apply (rule round_b64_step [where k = "-2" and e = "-54"])
  apply (simp_all add: rhe_def power_int_minus)
  done

lemma mono_2: "fmul (Fin 6) (Fin (4048655583777857 / 2 ^ 53)) = Fin (3036491687833393 / 2 ^ 50)"
  apply (simp add: fmul_Fin)
  apply (rule round_b64_step [where k = "1" and e = "-51"])
  apply (simp_all add: rhe_def power_int_minus)
  done

lemma mono_3: "fmul (Fin (3036491687833393 / 2 ^ 50)) (Fin (4048655583777857 / 2 ^ 53)) = Fin (2729751763972769 / 2 ^ 51)"
  apply (simp add: fmul_Fin)
  apply (rule round_b64_step [where k = "0" and e = "-52"])
  apply (simp_all add: rhe_def power_int_minus)
  done

lemma mono_4: "fsub (Fin 1) (Fin (2729751763972769 / 2 ^ 51)) = Fin (- 477951950287521 / 2 ^ 51)"
  apply (simp add: fsub_Fin)
  apply (rule round_b64_step [where k = "-3" and e = "-55"])
  apply (simp_all add: rhe_def power_int_minus)
  done

lemma mono_5: "fmul (Fin (2729751763972769 / 2 ^ 51)) (Fin (4048655583777857 / 2 ^ 53)) = Fin (19171859796829 / 2 ^ 45)"
  apply (simp add: fmul_Fin)
  apply (rule round_b64_step [where k = "-1" and e = "-53"])
  apply (simp_all add: rhe_def power_int_minus)
  done

lemma mono_6: "fadd (Fin (- 477951950287521 / 2 ^ 51)) (Fin (19171859796829 / 2 ^ 45)) = Fin (749047076709535 / 2 ^ 51)"
  apply (simp add: fadd_Fin)
  apply (rule round_b64_step [where k = "-2" and e = "-54"])
  apply (simp_all add: rhe_def power_int_minus)
  done

lemma mono_7: "fmul (Fin 7) (Fin (884279719003555 / 2 ^ 48)) = Fin (6189958033024885 / 2 ^ 48)"
  apply (simp add: fmul_Fin)
  apply (rule round_b64_step [where k = "4" and e = "-48"])
  apply (simp_all add: rhe_def power_int_minus)
  done

lemma mono_8: "fmul (Fin (6189958033024885 / 2 ^ 48)) (Fin 1) = Fin (6189958033024885 / 2 ^ 48)"
  apply (simp add: fmul_Fin)
  apply (rule round_b64_step [where k = "4" and e = "-48"])
  apply (simp_all add: rhe_def power_int_minus)
  done

lemma mono_9: "fmul (Fin 4) (Fin 10) = Fin 40"
  apply (simp add: fmul_Fin)
  apply (rule round_b64_step [where k = "5" and e = "-47"])
  apply (simp_all add: rhe_def power_int_minus)
  done

lemma mono_10: "fdiv (Fin 40) (Fin (6189958033024885 / 2 ^ 48)) = Fin (2047914692579521 / 2 ^ 50)"
  apply (simp add: fdiv_Fin)
  apply (rule round_b64_step [where k = "0" and e = "-52"])
  apply (simp_all add: rhe_def power_int_minus)
  done

lemma mono_11: "fmul (Fin (2047914692579521 / 2 ^ 50)) (Fin (749047076709535 / 2 ^ 51)) = Fin (85153246333469 / 2 ^ 47)"
  apply (simp add: fmul_Fin)
  apply (rule round_b64_step [where k = "-1" and e = "-53"])
  apply (simp_all add: rhe_def power_int_minus)
  done

lemma mono_12: "fdiv (Fin (8097311167555715 / 2 ^ 54)) (Fin 1) = Fin (8097311167555715 / 2 ^ 54)"
  apply (simp add: fdiv_Fin)
  apply (rule round_b64_step [where k = "-2" and e = "-54"])
  apply (simp_all add: rhe_def power_int_minus)
  done

lemma mono_13: "fmul (Fin 6) (Fin (8097311167555715 / 2 ^ 54)) = Fin (3036491687833393 / 2 ^ 50)"
  apply (simp add: fmul_Fin)
  apply (rule round_b64_step [where k = "1" and e = "-51"])
  apply (simp_all add: rhe_def power_int_minus)
  done

lemma mono_14: "fmul (Fin (3036491687833393 / 2 ^ 50)) (Fin (8097311167555715 / 2 ^ 54)) = Fin (2729751763972769 / 2 ^ 51)"
  apply (simp add: fmul_Fin)
  apply (rule round_b64_step [where k = "0" and e = "-52"])
  apply (simp_all add: rhe_def power_int_minus)
  done

lemma mono_15: "fsub (Fin 1) (Fin (2729751763972769 / 2 ^ 51)) = Fin (- 477951950287521 / 2 ^ 51)"
  apply (simp add: fsub_Fin)
  apply (rule round_b64_step [where k = "-3" and e = "-55"])
  apply (simp_all add: rhe_def power_int_minus)
  done

lemma mono_16: "fmul (Fin (2729751763972769 / 2 ^ 51)) (Fin (8097311167555715 / 2 ^ 54)) = Fin (4907996107988225 / 2 ^ 53)"
  apply (simp add: fmul_Fin)
  apply (rule round_b64_step [where k = "-1" and e = "-53"])
  apply (simp_all add: rhe_def power_int_minus)
  done

lemma mono_17: "fadd (Fin (- 477951950287521 / 2 ^ 51)) (Fin (4907996107988225 / 2 ^ 53)) = Fin (2996188306838141 / 2 ^ 53)"
  apply (simp add: fadd_Fin)
  apply (rule round_b64_step [where k = "-2" and e = "-54"])
  apply (simp_all add: rhe_def power_int_minus)
  done

lemma mono_18: "fmul (Fin (2047914692579521 / 2 ^ 50)) (Fin (2996188306838141 / 2 ^ 53)) = Fin (2724903882671009 / 2 ^ 52)"
  apply (simp add: fmul_Fin)
  apply (rule round_b64_step [where k = "-1" and e = "-53"])
  apply (simp_all add: rhe_def power_int_minus)
  done

lemma fle_half_1: "fle (Fin (4048655583777857 / 2 ^ 53)) (Fin (1 / 2))"
  by simp

lemma fle_half_2: "fle (Fin (8097311167555715 / 2 ^ 54)) (Fin (1 / 2))"
  by simp

lemma mono_left:
  "sph_kernel_b64 (Fin (4048655583777857 / 2 ^ 53)) (Fin 1) = Fin (85153246333469 / 2 ^ 47)"
  unfolding sph_kernel_b64_split scale_b64_def retval_b64_def pi_const_def mono_1 if_P [OF fle_half_1]
  by (simp only: mono_2 mono_3 mono_4 mono_5 mono_6 mono_7 mono_8 mono_9 mono_10 mono_11)

lemma mono_right:
  "sph_kernel_b64 (Fin (8097311167555715 / 2 ^ 54)) (Fin 1) = Fin (2724903882671009 / 2 ^ 52)"
  unfolding sph_kernel_b64_split scale_b64_def retval_b64_def pi_const_def mono_12 if_P [OF fle_half_2]
  by (simp only: mono_13 mono_14 mono_15 mono_16 mono_17 mono_7 mono_8 mono_9 mono_10 mono_18)

text \<open>
  C10, as stated, fails in binary64. With \<open>h = 1\<close> and the adjacent doubles
  \<open>0 \<le> r1 \<le> r2\<close> above, the program returns \<open>85153246333469 / 2 ^ 47\<close>
  (\<open>0.6050502060863678\<close>) at \<open>r1\<close> and the larger \<open>2724903882671009 / 2 ^ 52\<close>
  (\<open>0.6050502060863681\<close>) at \<open>r2\<close>: the roundings in \<open>1.0 - 6.0*x*x + 6.0*x*x*x\<close> break the
  monotonicity that the polynomial has in exact arithmetic.
\<close>

theorem sph_kernel_antimono_counterexample:
  "(0::real) < 1 \<and> (0::real) \<le> 4048655583777857 / 2 ^ 53
    \<and> (4048655583777857 / 2 ^ 53 :: real) \<le> 8097311167555715 / 2 ^ 54
    \<and> sph_kernel_b64 (Fin (4048655583777857 / 2 ^ 53)) (Fin 1) = Fin (85153246333469 / 2 ^ 47)
    \<and> sph_kernel_b64 (Fin (8097311167555715 / 2 ^ 54)) (Fin 1) = Fin (2724903882671009 / 2 ^ 52)
    \<and> (85153246333469 / 2 ^ 47 :: real) < 2724903882671009 / 2 ^ 52
    \<and> \<not> fle (sph_kernel_b64 (Fin (8097311167555715 / 2 ^ 54)) (Fin 1))
          (sph_kernel_b64 (Fin (4048655583777857 / 2 ^ 53)) (Fin 1))"
  unfolding mono_left mono_right by simp

subsection \<open>A smoothing length whose square underflows\<close>

text \<open>
  With \<open>h = 2 ^ - 600\<close> the product \<open>7.0*pi*h*h\<close> underflows to \<open>0\<close> and the factor
  \<open>4.0 * 10.0 / (7.0*pi*h*h)\<close> is \<open>+\<infinity>\<close>; the kernel is then \<open>+\<infinity>\<close> at \<open>r = 0\<close> and
  \<open>\<infinity> * 0.0 = NaN\<close> where \<open>retval\<close> is \<open>0.0\<close>. With \<open>h = 1\<close> the factor is finite.
\<close>

lemma seven_pi: "fmul (Fin 7) (Fin pi_const) = Fin (6189958033024885 / 2 ^ 48)"
  unfolding pi_const_def by (rule mono_7)

lemma tiny_scale: "scale_b64 (Fin (1 / 2 ^ 600)) = PInf"
proof -
  have 1: "fmul (Fin (6189958033024885 / 2 ^ 48)) (Fin (1 / 2 ^ 600)) = Fin (6189958033024885 / 2 ^ 648)"
    unfolding fmul_Fin
    by (subst round_b64_exact)
      (auto intro!: is_b64I [where m = 6189958033024885 and e = "- 648"] simp: power_int_minus)
  have "rnd (6189958033024885 / 2 ^ 1248) = 0"
    by (subst rnd_eval [where k = "- 1196" and e = "- 1074"]) (simp_all add: rhe_def power_int_minus)
  then have 2: "fmul (Fin (6189958033024885 / 2 ^ 648)) (Fin (1 / 2 ^ 600)) = Fin 0"
    unfolding fmul_Fin by (simp add: round_b64_underflow zero_of_def)
  have 3: "fdiv (Fin 40) (Fin 0) = PInf"
    by (simp add: fdiv_Fin_zero inf_of_def)
  show ?thesis
    unfolding scale_b64_def seven_pi mono_9 1 2 3 ..
qed

lemma tiny_far_retval: "retval_b64 (fdiv (Fin 1) (Fin (1 / 2 ^ 600))) = Fin 0"
proof -
  have x: "fdiv (Fin 1) (Fin (1 / 2 ^ 600)) = Fin (2 ^ 600)"
    by (subst fdiv_Fin, simp, subst round_b64_exact)
      (auto intro!: is_b64I [where m = 1 and e = 600] simp: power_int_def)
  show ?thesis
    unfolding x retval_b64_def by simp
qed

lemma tiny_centre_retval: "retval_b64 (fdiv (Fin 0) (Fin (1 / 2 ^ 600))) = Fin 1"
proof -
  have x: "fdiv (Fin 0) (Fin (1 / 2 ^ 600)) = Fin 0"
    by (subst fdiv_Fin) (simp_all add: round_b64_zero zero_of_def)
  have m0: "fmul (Fin 6) (Fin 0) = Fin 0" "fmul (Fin 0) (Fin 0) = Fin 0"
    unfolding fmul_Fin by (simp_all add: round_b64_zero zero_of_def)
  have "is_b64 1"
    by (rule is_b64I [where m = 1 and e = 0]) simp_all
  then have one: "fsub (Fin 1) (Fin 0) = Fin 1" "fadd (Fin 1) (Fin 0) = Fin 1"
    unfolding fsub_Fin fadd_Fin by (simp_all add: round_b64_exact)
  have le: "fle (Fin 0) (Fin (1 / 2))"
    by simp
  show ?thesis
    unfolding x retval_b64_def if_P [OF le] m0 one ..
qed

lemma tiny_far: "sph_kernel_b64 (Fin 1) (Fin (1 / 2 ^ 600)) = NaN"
  unfolding sph_kernel_b64_split tiny_scale tiny_far_retval by (rule fmul_inf_zero)

lemma tiny_centre: "sph_kernel_b64 (Fin 0) (Fin (1 / 2 ^ 600)) = PInf"
  unfolding sph_kernel_b64_split tiny_scale tiny_centre_retval by (rule fmul_inf_pos) simp






subsection \<open>The constant pi\<close>

text \<open>
  The constant of the program is below \<open>\<pi>\<close>: by Machin's formula
  \<open>\<pi> = 16 * arctan (1 / 5) - 4 * arctan (1 / 239)\<close> and the alternating series of
  \<open>arctan\<close>, whose partial sums bound it from both sides.
\<close>

lemma arctan_partial_sums:
  fixes x :: real
  assumes "0 \<le> x" and "x \<le> 1"
  shows "(\<Sum>k<2 * n. (- 1) ^ k * (1 / real (k * 2 + 1) * x ^ (k * 2 + 1))) \<le> arctan x"
    and "arctan x \<le> (\<Sum>k<2 * n + 1. (- 1) ^ k * (1 / real (k * 2 + 1) * x ^ (k * 2 + 1)))"
proof -
  let ?a = "\<lambda>k. 1 / real (k * 2 + 1) * x ^ (k * 2 + 1)"
  have abs: "\<bar>x\<bar> \<le> 1"
    using assms by simp
  have zero: "?a \<longlonglongrightarrow> 0"
    using zeroseq_arctan_series [OF abs] .
  have nonneg: "0 \<le> ?a k" for k
    using assms by simp
  have decr: "?a (Suc k) \<le> ?a k" for k
  proof -
    have "x ^ (Suc k * 2 + 1) \<le> x ^ (k * 2 + 1)"
      using assms by (intro power_decreasing) simp_all
    moreover have "1 / real (Suc k * 2 + 1) \<le> 1 / real (k * 2 + 1)"
      by (intro divide_left_mono) simp_all
    ultimately show ?thesis
      using assms by (intro mult_mono) simp_all
  qed
  have series: "arctan x = (\<Sum>k. (- 1) ^ k * ?a k)"
    using arctan_series [OF abs] .
  show "(\<Sum>k<2 * n. (- 1) ^ k * ?a k) \<le> arctan x"
    unfolding series by (rule summable_Leibniz'(2) [OF zero nonneg decr])
  show "arctan x \<le> (\<Sum>k<2 * n + 1. (- 1) ^ k * ?a k)"
    unfolding series by (rule summable_Leibniz'(4) [OF zero nonneg decr])
qed

lemma pi_const_less_pi: "pi_const < pi"
proof -
  have machin': "pi = 16 * arctan (1 / 5) - 4 * arctan (1 / 239)"
    using machin by simp
  have "pi_const < 16 * (\<Sum>k<2 * 6. (- 1) ^ k * (1 / real (k * 2 + 1) * (1 / 5) ^ (k * 2 + 1)))
      - 4 * (\<Sum>k<2 * 2 + 1. (- 1) ^ k * (1 / real (k * 2 + 1) * (1 / 239) ^ (k * 2 + 1)))"
    unfolding pi_const_def by (simp add: eval_nat_numeral)
  also have "\<dots> \<le> 16 * arctan (1 / 5) - 4 * arctan (1 / 239)"
    using arctan_partial_sums(1) [of "1 / 5" 6] arctan_partial_sums(2) [of "1 / 239" 2]
    by simp
  finally show ?thesis
    unfolding machin' .
qed

text \<open>
  C3, as stated, fails. In binary64, at \<open>r = 1 \<ge> 0\<close> and \<open>h = 2 ^ - 600 > 0\<close> the
  specification's value \<open>40 / (7 * pi * h\<^sup>2) * W_raw (r / h)\<close> is \<open>0\<close> and the program
  returns NaN, which is not a non-negative real; at \<open>r = 0\<close> it returns \<open>+\<infinity>\<close>. And
  in exact arithmetic the scale factor is \<open>40 / (7 * pi)\<close> for the constant \<open>pi\<close> of the
  program, not for the real number \<open>\<pi>\<close>: at \<open>r = 0\<close>, \<open>h = 1\<close> the kernel differs from
  \<open>40 / (7 * \<pi>)\<close>.
\<close>

theorem sph_kernel_refines_W_raw_counterexample:
  "(0::real) \<le> 1 \<and> (0::real) < 1 / 2 ^ 600
    \<and> sph_kernel_b64 (Fin 1) (Fin (1 / 2 ^ 600)) = NaN
    \<and> 40 / (7 * pi_const * (1 / 2 ^ 600)\<^sup>2) * W_raw (1 / (1 / 2 ^ 600)) = 0
    \<and> sph_kernel_b64 (Fin 0) (Fin (1 / 2 ^ 600)) = PInf
    \<and> sph_kernel 0 1 = 40 / (7 * pi_const)
    \<and> sph_kernel 0 1 \<noteq> 40 / (7 * pi)"
proof -
  have w: "W_raw (1 / (1 / 2 ^ 600)) = 0"
    by (simp add: W_raw_def)
  have at0: "sph_kernel 0 1 = 40 / (7 * pi_const)"
    unfolding sph_kernel_kernel_retval by (simp add: kernel_retval_zero)
  have "pi_const \<noteq> pi"
    using pi_const_less_pi by simp
  then have "sph_kernel 0 1 \<noteq> 40 / (7 * pi)"
    unfolding at0 by (simp add: pi_const_def field_simps)
  then show ?thesis
    unfolding tiny_far tiny_centre w using at0 by simp
qed

section \<open>Sources that miss the grid, in binary64\<close>

subsection \<open>A source just beyond the left edge\<close>



































subsection \<open>A source far from the grid\<close>
















subsection \<open>Empty boxes\<close>






section \<open>What the accumulator adds, in binary64\<close>







subsection \<open>A run with two sources\<close>

















































































end
